theory Spec2Isabelle
  imports Main "HOL-Library.Multiset" "HOL-Library.Char_ord" "HOL-Library.List_Lexorder"
begin

section \<open>The workflow run DAO of engine/api/workflow/dao\_run.go\<close>

text \<open>
  The Go file is a data-access layer: every function takes a \<^verbatim>\<open>gorp.SqlExecutor\<close> and a few
  arguments, issues SQL statements through it and converts rows to \<^verbatim>\<open>sdk\<close> structs. The
  embedding keeps that shape. The database is an explicit state (\<open>db\<close>): its tables are lists
  of rows, every call on the executor is appended to a log (\<open>calls\<close>), and every SQL statement
  consumes one entry of a fault schedule (\<open>faults\<close>), so that each \<^verbatim>\<open>if err != nil\<close> branch of
  the source is a branch of the model. A Go function \<^verbatim>\<open>f(db, x) (T, error)\<close> becomes
  \<open>f x d = (Inr t, d')\<close> or \<open>(Inl e, d')\<close>; a method on a pointer receiver also returns the
  struct it mutated.

  Go's \<^verbatim>\<open>int64\<close> and \<^verbatim>\<open>int\<close> are modelled by \<open>int\<close>: the file compares and copies such
  values and never does arithmetic on them. \<^verbatim>\<open>time.Time\<close> is an \<open>int\<close> timestamp.
\<close>

subsection \<open>Errors\<close>

text \<open>
  \<open>ErrNoRows\<close> is \<^verbatim>\<open>sql.ErrNoRows\<close>, \<open>ErrWorkflowNotFound\<close> is \<^verbatim>\<open>sdk.ErrWorkflowNotFound\<close>,
  \<open>LockNotAvailable\<close> is what PostgreSQL raises for \<^verbatim>\<open>FOR UPDATE NOWAIT\<close> on a locked row,
  \<open>MultipleRows\<close> is gorp's complaint when \<^verbatim>\<open>SelectOne\<close> finds more than one row,
  \<open>InvalidRowCount\<close> is PostgreSQL's rejection of a negative LIMIT or OFFSET,
  \<open>UniqueViolation\<close> its rejection of a row that breaks a constraint of the table,
  \<open>DbError\<close> is any other driver error and \<open>JsonError\<close> an error of \<^verbatim>\<open>encoding/json\<close>. \<open>WrapError\<close> is
  \<^verbatim>\<open>sdk.WrapError(err, msg)\<close>; its first argument is optional because line 211 of the source
  wraps an error variable that is \<^verbatim>\<open>nil\<close> at that point.
\<close>

datatype error =
    ErrNoRows
  | ErrWorkflowNotFound
  | LockNotAvailable
  | MultipleRows
  | InvalidRowCount
  | UniqueViolation
  | DbError string
  | JsonError string
  | WrapError "error option" string

subsection \<open>The structs of package sdk that the file reads and writes\<close>

record Workflow =
  wf_ID :: int
  wf_ProjectKey :: string
  wf_Name :: string

record WorkflowRunInfo =
  Message :: string
  IsError :: bool

record WorkflowRunTag =
  WorkflowRunID :: int
  Tag :: string
  Value :: string

record WorkflowNodeRun =
  nr_ID :: int
  nr_WorkflowRunID :: int
  WorkflowNodeID :: int
  SubNumber :: int
  nr_Status :: string

text \<open>
  \<^verbatim>\<open>Run\<close> is declared as \<^verbatim>\<open>sdk.WorkflowRun\<close> under another name (the conversions
  \<^verbatim>\<open>Run(*w)\<close> and \<^verbatim>\<open>sdk.WorkflowRun(*runDB)\<close> copy the struct), and so are \<^verbatim>\<open>NodeRun\<close> and
  \<^verbatim>\<open>RunTag\<close>; one record serves for both names. A \<^verbatim>\<open>nil\<close> map is the empty map.
\<close>

record WorkflowRun =
  ID :: int
  Number :: int
  ProjectID :: int
  WorkflowID :: int
  Start :: int
  LastModified :: int
  Status :: string
  Workflow :: Workflow
  WorkflowNodeRuns :: "int \<rightharpoonup> WorkflowNodeRun list"
  Infos :: "WorkflowRunInfo list"
  Tags :: "WorkflowRunTag list"

text \<open>Modelled from the spec: the constant \<^verbatim>\<open>sdk.StatusFail\<close>, declared in package sdk; the
  spec names the status Fail.\<close>

definition StatusFail :: string where
  "StatusFail = ''Fail''"

text \<open>The zero values \<^verbatim>\<open>sdk.Workflow{}\<close> and \<^verbatim>\<open>Run{}\<close>.\<close>

definition Workflow_zero :: Workflow where
  "Workflow_zero = \<lparr>wf_ID = 0, wf_ProjectKey = [], wf_Name = []\<rparr>"

definition Run_zero :: WorkflowRun where
  "Run_zero = \<lparr>ID = 0, Number = 0, ProjectID = 0, WorkflowID = 0, Start = 0, LastModified = 0,
     Status = [], Workflow = Workflow_zero, WorkflowNodeRuns = Map.empty, Infos = [], Tags = []\<rparr>"

subsection \<open>The database\<close>

text \<open>
  The tables and columns are the ones the SQL text of the source names. A row of
  \<^verbatim>\<open>workflow_run\<close> carries the mapped columns of the struct and the two nullable JSON columns
  \<^verbatim>\<open>workflow\<close> and \<^verbatim>\<open>infos\<close> (\<open>None\<close> is SQL NULL). The schema is not part of the file, so
  the tables are lists of rows without built-in constraints, except that the constraints of
  \<^verbatim>\<open>workflow_run_tag\<close>, the one table the file inserts into, are a parameter of the
  database: \<open>tag_accepts d rows t\<close> says whether the table, holding \<open>rows\<close>, accepts the
  new row \<open>t\<close>.
\<close>

record project_row =
  p_id :: int
  p_projectkey :: string

record workflow_row =
  w_id :: int
  w_project_id :: int
  w_name :: string

record run_row =
  r_id :: int
  r_project_id :: int
  r_workflow_id :: int
  r_num :: int
  r_start :: int
  r_last_modified :: int
  r_status :: string
  r_workflow :: "string option"
  r_infos :: "string option"

text \<open>The five \<^verbatim>\<open>select workflow_run.*\<close> statements handed to \<^verbatim>\<open>loadRun\<close>, with their arguments.\<close>

datatype query =
    Q_LoadLastRun string string
  | Q_LoadRun string string int
  | Q_LoadRunByIDAndProjectKey string int
  | Q_LoadRunByID int
  | Q_loadAndLockRunByID int

text \<open>One constructor for each call the file makes on the executor.\<close>

datatype call =
    Update_run int
  | Exec_update_status int string
  | Exec_update_blobs int
  | Exec_delete_tags int
  | Insert_tags "WorkflowRunTag list"
  | SelectOne_run query
  | SelectOne_blobs int
  | Select_node_runs int
  | Select_tags int
  | SelectInt_count string string
  | Select_page string string int int
  | Select_tags_values string string
  | SelectInt_nextval int

record db =
  project :: "project_row list"
  workflow :: "workflow_row list"
  workflow_run :: "run_row list"
  workflow_node_run :: "WorkflowNodeRun list"
  workflow_run_tag :: "WorkflowRunTag list"
  tag_accepts :: "WorkflowRunTag list \<Rightarrow> WorkflowRunTag \<Rightarrow> bool"
  workflow_sequences :: "int \<Rightarrow> int"
  locked :: "int list"
  held :: "int list"
  faults :: "error option list"
  calls :: "call list"

text \<open>
  \<open>locked\<close> holds the ids of the \<^verbatim>\<open>workflow_run\<close> rows whose row lock another transaction
  holds, \<open>held\<close> the ids this transaction has locked. \<open>stmt\<close> runs one SQL statement: it
  takes the next entry of the fault schedule (an exhausted schedule means no fault).
  \<open>logcall\<close> records a call on the executor.
\<close>

definition stmt :: "db \<Rightarrow> error option \<times> db" where
  "stmt d = (case faults d of [] \<Rightarrow> (None, d) | f # fs \<Rightarrow> (f, d\<lparr>faults := fs\<rparr>))"

definition logcall :: "call \<Rightarrow> db \<Rightarrow> db" where
  "logcall c d = d\<lparr>calls := calls d @ [c]\<rparr>"

text \<open>\<^verbatim>\<open>db.Exec\<close> of a statement whose effect on the tables is \<open>f\<close>.\<close>

definition db_Exec :: "call \<Rightarrow> (db \<Rightarrow> db) \<Rightarrow> db \<Rightarrow> error option \<times> db" where
  "db_Exec c f d =
     (case stmt (logcall c d) of
        (Some e, d') \<Rightarrow> (Some e, d')
      | (None, d') \<Rightarrow> (None, f d'))"

text \<open>\<^verbatim>\<open>db.Select\<close> of a statement without side effect whose rows are \<open>rows\<close>.\<close>

definition db_Select :: "call \<Rightarrow> (db \<Rightarrow> 'a) \<Rightarrow> db \<Rightarrow> (error + 'a) \<times> db" where
  "db_Select c rows d =
     (case stmt (logcall c d) of
        (Some e, d') \<Rightarrow> (Inl e, d')
      | (None, d') \<Rightarrow> (Inr (rows d'), d'))"

text \<open>gorp's \<^verbatim>\<open>SelectOne\<close> wants exactly one row.\<close>

definition one_row :: "'a list \<Rightarrow> error + 'a" where
  "one_row rows =
     (case rows of
        [] \<Rightarrow> Inl ErrNoRows
      | [r] \<Rightarrow> Inr r
      | _ # _ # _ \<Rightarrow> Inl MultipleRows)"

subsection \<open>JSON and the hook of NodeRun\<close>

text \<open>
  \<^verbatim>\<open>json.Marshal\<close> and \<^verbatim>\<open>json.Unmarshal\<close> belong to Go's standard library and
  \<^verbatim>\<open>NodeRun.PostGet\<close> is declared in another file of the package; the functions of the file
  take them as parameters, gathered in one record. A blob is malformed when the
  corresponding \<open>unmarshal\<close> returns \<open>Inl\<close>.
\<close>

record env =
  marshalWorkflow :: "Workflow \<Rightarrow> error + string"
  marshalInfos :: "WorkflowRunInfo list \<Rightarrow> error + string"
  unmarshalWorkflow :: "string \<Rightarrow> error + Workflow"
  unmarshalInfos :: "string \<Rightarrow> error + WorkflowRunInfo list"
  NodeRun_PostGet :: "WorkflowNodeRun \<Rightarrow> db \<Rightarrow> (error + WorkflowNodeRun) \<times> db"

subsection \<open>Writing a run: updateTags, the hooks, updateWorkflowRun\<close>

text \<open>
  gorp's \<^verbatim>\<open>Insert(list...)\<close> inserts its arguments one after the other, one INSERT statement
  each, and stops at the first that fails, be it by a fault or because the table does not
  accept the row.
\<close>

fun insert_tag_rows :: "WorkflowRunTag list \<Rightarrow> db \<Rightarrow> error option \<times> db" where
  "insert_tag_rows [] d = (None, d)"
| "insert_tag_rows (t # ts) d =
     (case stmt d of
        (Some e, d') \<Rightarrow> (Some e, d')
      | (None, d') \<Rightarrow>
          if tag_accepts d' (workflow_run_tag d') t
          then insert_tag_rows ts (d'\<lparr>workflow_run_tag := workflow_run_tag d' @ [t]\<rparr>)
          else (Some UniqueViolation, d'))"

definition db_Insert_tags :: "WorkflowRunTag list \<Rightarrow> db \<Rightarrow> error option \<times> db" where
  "db_Insert_tags ts d = insert_tag_rows ts (logcall (Insert_tags ts) d)"

definition delete_tags :: "int \<Rightarrow> db \<Rightarrow> db" where
  "delete_tags rid d =
     d\<lparr>workflow_run_tag := filter (\<lambda>t. WorkflowRunID t \<noteq> rid) (workflow_run_tag d)\<rparr>"

text \<open>
  \<^verbatim>\<open>updateTags\<close> (lines 112-131). The loop stamps the run's id on every element of
  \<^verbatim>\<open>r.Tags\<close> in place, so the struct comes back changed.
\<close>

definition updateTags :: "WorkflowRun \<Rightarrow> db \<Rightarrow> error option \<times> WorkflowRun \<times> db" where
  "updateTags r d =
     (case db_Exec (Exec_delete_tags (ID r)) (delete_tags (ID r)) d of
        (Some e, d1) \<Rightarrow> (Some (WrapError (Some e) ''Run.updateTags> Unable to store tags''), r, d1)
      | (None, d1) \<Rightarrow>
          let r' = r\<lparr>Tags := map (\<lambda>t. t\<lparr>WorkflowRunID := ID r\<rparr>) (Tags r)\<rparr>;
              tags = Tags r'
          in if length tags > 0 then
               (case db_Insert_tags tags d1 of
                  (Some e, d2) \<Rightarrow>
                    (Some (WrapError (Some e) ''Run.updateTags> Unable to store tags''), r', d2)
                | (None, d2) \<Rightarrow> (None, r', d2))
             else (None, r', d1))"

definition store_blobs :: "int \<Rightarrow> string \<Rightarrow> string \<Rightarrow> db \<Rightarrow> db" where
  "store_blobs rid i w d =
     d\<lparr>workflow_run :=
         map (\<lambda>row. if r_id row = rid then row\<lparr>r_workflow := Some w, r_infos := Some i\<rparr> else row)
           (workflow_run d)\<rparr>"

text \<open>\<^verbatim>\<open>Run.PostInsert\<close> (lines 55-75) and \<^verbatim>\<open>Run.PostUpdate\<close> (lines 78-80).\<close>

definition PostInsert :: "env \<Rightarrow> WorkflowRun \<Rightarrow> db \<Rightarrow> error option \<times> WorkflowRun \<times> db" where
  "PostInsert c r d =
     (case marshalWorkflow c (Workflow r) of
        Inl errw \<Rightarrow> (Some (WrapError (Some errw) ''Run.PostInsert> Unable to marshal workflow''), r, d)
      | Inr w \<Rightarrow>
     (case marshalInfos c (Infos r) of
        Inl erri \<Rightarrow> (Some (WrapError (Some erri) ''Run.PostInsert> Unable to marshal infos''), r, d)
      | Inr i \<Rightarrow>
     (case db_Exec (Exec_update_blobs (ID r)) (store_blobs (ID r) i w) d of
        (Some e, d1) \<Rightarrow>
          (Some (WrapError (Some e) ''Run.PostInsert> Unable to store marshalled infos''), r, d1)
      | (None, d1) \<Rightarrow>
     (case updateTags r d1 of
        (Some e, r2, d2) \<Rightarrow>
          (Some (WrapError (Some e) ''Run.PostInsert> Unable to store tags''), r2, d2)
      | (None, r2, d2) \<Rightarrow> (None, r2, d2)))))"

definition PostUpdate :: "env \<Rightarrow> WorkflowRun \<Rightarrow> db \<Rightarrow> error option \<times> WorkflowRun \<times> db" where
  "PostUpdate c r d = PostInsert c r d"

text \<open>
  gorp's \<^verbatim>\<open>Update\<close> of a \<^verbatim>\<open>Run\<close>: one UPDATE statement that overwrites the mapped columns of
  the rows whose primary key is the struct's id, then the \<^verbatim>\<open>PostUpdate\<close> hook.
\<close>

definition update_run_row :: "WorkflowRun \<Rightarrow> db \<Rightarrow> db" where
  "update_run_row r d =
     d\<lparr>workflow_run :=
         map (\<lambda>row. if r_id row = ID r
                then row\<lparr>r_project_id := ProjectID r, r_workflow_id := WorkflowID r,
                       r_num := Number r, r_start := Start r,
                       r_last_modified := LastModified r, r_status := Status r\<rparr>
                else row)
           (workflow_run d)\<rparr>"

definition db_Update_run :: "env \<Rightarrow> WorkflowRun \<Rightarrow> db \<Rightarrow> error option \<times> WorkflowRun \<times> db" where
  "db_Update_run c r d =
     (case db_Exec (Update_run (ID r)) (update_run_row r) d of
        (Some e, d1) \<Rightarrow> (Some e, r, d1)
      | (None, d1) \<Rightarrow> PostUpdate c r d1)"

text \<open>
  \<^verbatim>\<open>updateWorkflowRun\<close> (lines 27-42); \<open>now\<close> is the value of \<^verbatim>\<open>time.Now()\<close>. The loop over
  \<^verbatim>\<open>w.Infos\<close> is \<open>force_fail\<close>. \<^verbatim>\<open>runDB\<close> is a copy of \<^verbatim>\<open>*w\<close> that shares the tag slice, so
  the stamping done by the hook shows in \<^verbatim>\<open>w.Tags\<close>.
\<close>

fun force_fail :: "WorkflowRunInfo list \<Rightarrow> WorkflowRun \<Rightarrow> WorkflowRun" where
  "force_fail [] w = w"
| "force_fail (info # infos) w =
     force_fail infos (if IsError info then w\<lparr>Status := StatusFail\<rparr> else w)"

definition updateWorkflowRun ::
  "env \<Rightarrow> int \<Rightarrow> WorkflowRun \<Rightarrow> db \<Rightarrow> error option \<times> WorkflowRun \<times> db" where
  "updateWorkflowRun c now w d =
     (let w1 = w\<lparr>LastModified := now\<rparr>;
          w2 = force_fail (Infos w1) w1
      in case db_Update_run c w2 d of
           (Some err, runDB, d') \<Rightarrow>
             (Some (WrapError (Some err) ''updateWorkflowRun> Unable to update run''),
              w2\<lparr>Tags := Tags runDB\<rparr>, d')
         | (None, runDB, d') \<Rightarrow> (None, w2\<lparr>Tags := Tags runDB, ID := ID runDB\<rparr>, d'))"

text \<open>\<^verbatim>\<open>UpdateWorkflowRunStatus\<close> (lines 45-52).\<close>

definition set_status :: "int \<Rightarrow> string \<Rightarrow> int \<Rightarrow> db \<Rightarrow> db" where
  "set_status rid status now d =
     d\<lparr>workflow_run :=
         map (\<lambda>row. if r_id row = rid then row\<lparr>r_status := status, r_last_modified := now\<rparr> else row)
           (workflow_run d)\<rparr>"

definition UpdateWorkflowRunStatus :: "int \<Rightarrow> int \<Rightarrow> string \<Rightarrow> db \<Rightarrow> error option \<times> db" where
  "UpdateWorkflowRunStatus now rid status d =
     (case db_Exec (Exec_update_status rid status) (set_status rid status now) d of
        (Some e, d') \<Rightarrow>
          (Some (WrapError (Some e) ''updateWorkflowRunStatus> Unable to set  workflow_run id %d with status %s''), d')
      | (None, d') \<Rightarrow> (None, d'))"

text \<open>The status column of the rows of a run, as stored.\<close>

definition persisted_status :: "db \<Rightarrow> int \<Rightarrow> string list" where
  "persisted_status d rid = map r_status (filter (\<lambda>row. r_id row = rid) (workflow_run d))"

subsection \<open>Reading a run: PostGet, loadRun and its callers\<close>

text \<open>
  \<^verbatim>\<open>Run.PostGet\<close> (lines 84-110). The statement selects the two JSON columns of the row
  into \<^verbatim>\<open>sql.NullString\<close>s; a field is decoded only when its column is not NULL.
\<close>

definition blobs_of :: "int \<Rightarrow> db \<Rightarrow> (string option \<times> string option) list" where
  "blobs_of rid d =
     map (\<lambda>row. (r_workflow row, r_infos row)) (filter (\<lambda>row. r_id row = rid) (workflow_run d))"

definition db_SelectOne_blobs :: "int \<Rightarrow> db \<Rightarrow> (error + string option \<times> string option) \<times> db" where
  "db_SelectOne_blobs rid d =
     (case db_Select (SelectOne_blobs rid) (blobs_of rid) d of
        (Inl e, d') \<Rightarrow> (Inl e, d')
      | (Inr rows, d') \<Rightarrow> (one_row rows, d'))"

definition PostGet :: "env \<Rightarrow> WorkflowRun \<Rightarrow> db \<Rightarrow> error option \<times> WorkflowRun \<times> db" where
  "PostGet c r d =
     (case db_SelectOne_blobs (ID r) d of
        (Inl err, d1) \<Rightarrow>
          (Some (WrapError (Some err) ''Run.PostGet> Unable to load marshalled workflow''), r, d1)
      | (Inr (W, I), d1) \<Rightarrow>
     (case (case W of
              None \<Rightarrow> Inr r
            | Some s \<Rightarrow>
                (case unmarshalWorkflow c s of
                   Inl err \<Rightarrow> Inl (WrapError (Some err) ''Run.PostGet> Unable to unmarshal workflow'')
                 | Inr w \<Rightarrow> Inr (r\<lparr>Workflow := w\<rparr>))) of
        Inl e \<Rightarrow> (Some e, r, d1)
      | Inr r1 \<Rightarrow>
     (case I of
        None \<Rightarrow> (None, r1, d1)
      | Some s \<Rightarrow>
          (case unmarshalInfos c s of
             Inl err \<Rightarrow> (Some (WrapError (Some err) ''Run.PostGet> Unable to unmarshal infos''), r1, d1)
           | Inr i \<Rightarrow> (None, r1\<lparr>Infos := i\<rparr>, d1)))))"

text \<open>
  A fetched row becomes a fresh struct: the mapped columns are set, every other field has
  its zero value. Which field goes with which column is declared in package sdk; the model
  pairs them by name.
\<close>

definition Run_of_row :: "run_row \<Rightarrow> WorkflowRun" where
  "Run_of_row row =
     Run_zero\<lparr>ID := r_id row, Number := r_num row, ProjectID := r_project_id row,
       WorkflowID := r_workflow_id row, Start := r_start row,
       LastModified := r_last_modified row, Status := r_status row\<rparr>"

text \<open>
  The rows of \<^verbatim>\<open>workflow_run\<close> joined with \<^verbatim>\<open>project\<close> and \<^verbatim>\<open>workflow\<close>, and the five
  statements. ORDER BY is a stable sort on the key (SQL leaves the order of ties open).
\<close>

definition runs_of_workflow :: "string \<Rightarrow> string \<Rightarrow> db \<Rightarrow> run_row list" where
  "runs_of_workflow projectkey workflowname d =
     [r. r \<leftarrow> workflow_run d,
         p \<leftarrow> project d, r_project_id r = p_id p,
         w \<leftarrow> workflow d, r_workflow_id r = w_id w,
         p_projectkey p = projectkey, w_name w = workflowname]"

fun run_query :: "query \<Rightarrow> db \<Rightarrow> run_row list" where
  "run_query (Q_LoadLastRun projectkey workflowname) d =
     take 1 (sort_key (\<lambda>r. - r_num r) (runs_of_workflow projectkey workflowname d))"
| "run_query (Q_LoadRun projectkey workflowname number) d =
     filter (\<lambda>r. r_num r = number) (runs_of_workflow projectkey workflowname d)"
| "run_query (Q_LoadRunByIDAndProjectKey projectkey rid) d =
     [r. r \<leftarrow> workflow_run d,
         p \<leftarrow> project d, r_project_id r = p_id p,
         p_projectkey p = projectkey, r_id r = rid]"
| "run_query (Q_LoadRunByID rid) d = filter (\<lambda>r. r_id r = rid) (workflow_run d)"
| "run_query (Q_loadAndLockRunByID rid) d = filter (\<lambda>r. r_id r = rid) (workflow_run d)"

text \<open>Modelled from the spec: the row lock of the store, which the database implements and
  no file under src/ declares. The spec describes it as an immediate, non-blocking
  exclusive lock scoped to the row, whose acquisition fails with a lock conflict, not a
  blocking wait, when another mutation currently holds it. A statement that ends in
  \<^verbatim>\<open>for update nowait\<close> asks for this lock on every row it selects: it fails with
  \<open>LockNotAvailable\<close> when another transaction holds one of them (\<open>locked\<close>) and otherwise
  adds them to the locks of this transaction (\<open>held\<close>). Time is not part of the model: a
  statement that fails returns its error in the state it was issued in.\<close>

definition lock_rows :: "int list \<Rightarrow> db \<Rightarrow> error option \<times> db" where
  "lock_rows ids d =
     (if list_ex (\<lambda>i. i \<in> set (locked d)) ids then (Some LockNotAvailable, d)
      else (None, d\<lparr>held := held d @ ids\<rparr>))"

fun for_update :: "query \<Rightarrow> bool" where
  "for_update (Q_loadAndLockRunByID rid) = True"
| "for_update q = False"

text \<open>
  gorp's \<^verbatim>\<open>SelectOne\<close> into a \<^verbatim>\<open>*Run\<close>: the statement, the \<^verbatim>\<open>PostGet\<close> hook on every fetched
  row, then the demand for exactly one row.
\<close>

fun PostGet_rows :: "env \<Rightarrow> WorkflowRun list \<Rightarrow> db \<Rightarrow> (error + WorkflowRun list) \<times> db" where
  "PostGet_rows c [] d = (Inr [], d)"
| "PostGet_rows c (r # rs) d =
     (case PostGet c r d of
        (Some e, r', d') \<Rightarrow> (Inl e, d')
      | (None, r', d') \<Rightarrow>
          (case PostGet_rows c rs d' of
             (Inl e, d'') \<Rightarrow> (Inl e, d'')
           | (Inr rs', d'') \<Rightarrow> (Inr (r' # rs'), d'')))"

definition db_SelectOne_run :: "env \<Rightarrow> query \<Rightarrow> db \<Rightarrow> (error + WorkflowRun) \<times> db" where
  "db_SelectOne_run c q d =
     (case stmt (logcall (SelectOne_run q) d) of
        (Some e, d1) \<Rightarrow> (Inl e, d1)
      | (None, d1) \<Rightarrow>
          let rows = run_query q d1 in
          (case (if for_update q then lock_rows (map r_id rows) d1 else (None, d1)) of
             (Some e, d2) \<Rightarrow> (Inl e, d2)
           | (None, d2) \<Rightarrow>
               (case PostGet_rows c (map Run_of_row rows) d2 of
                  (Inl e, d3) \<Rightarrow> (Inl e, d3)
                | (Inr rs, d3) \<Rightarrow> (one_row rs, d3))))"

text \<open>
  \<^verbatim>\<open>sort.Slice\<close> belongs to Go's standard library: it sorts a slice in place by a
  \<^verbatim>\<open>less\<close> function and promises no stability. It is modelled by the insertion sort the
  library runs on short slices: each element moves left while it is \<^verbatim>\<open>less\<close> than its
  left neighbour. \<open>insert_back\<close> works on the sorted prefix in reverse.
\<close>

fun insert_back :: "('a \<Rightarrow> 'a \<Rightarrow> bool) \<Rightarrow> 'a \<Rightarrow> 'a list \<Rightarrow> 'a list" where
  "insert_back lt x [] = [x]"
| "insert_back lt x (p # ps) = (if lt x p then p # insert_back lt x ps else x # p # ps)"

definition sort_Slice :: "('a \<Rightarrow> 'a \<Rightarrow> bool) \<Rightarrow> 'a list \<Rightarrow> 'a list" where
  "sort_Slice lt xs = rev (foldl (\<lambda>acc x. insert_back lt x acc) [] xs)"

text \<open>\<^verbatim>\<open>loadTagsByRunID\<close> (lines 283-293).\<close>

definition tags_of :: "int \<Rightarrow> db \<Rightarrow> WorkflowRunTag list" where
  "tags_of rid d = filter (\<lambda>t. WorkflowRunID t = rid) (workflow_run_tag d)"

definition loadTagsByRunID :: "int \<Rightarrow> db \<Rightarrow> (error + WorkflowRunTag list) \<times> db" where
  "loadTagsByRunID runID d =
     (case db_Select (Select_tags runID) (tags_of runID) d of
        (Inl err, d') \<Rightarrow>
          (Inl (WrapError (Some err) ''loadTagsByRunID> Unable to load tags for run %d''), d')
      | (Inr dbTags, d') \<Rightarrow> (Inr (map (\<lambda>t. t) dbTags), d'))"

text \<open>
  \<^verbatim>\<open>loadRun\<close> (lines 239-281). \<open>node_runs_of\<close> is the second statement, with its
  \<^verbatim>\<open>ORDER BY workflow_node_run.sub_num DESC\<close>; \<open>collect_node_runs\<close> is the loop that runs the
  hook on each node run and appends it to the slice of its node.
\<close>

definition node_runs_of :: "int \<Rightarrow> db \<Rightarrow> WorkflowNodeRun list" where
  "node_runs_of rid d =
     sort_key (\<lambda>n. - SubNumber n) (filter (\<lambda>n. nr_WorkflowRunID n = rid) (workflow_node_run d))"

fun collect_node_runs ::
  "env \<Rightarrow> WorkflowNodeRun list \<Rightarrow> WorkflowRun \<Rightarrow> db \<Rightarrow> (error + WorkflowRun) \<times> db" where
  "collect_node_runs c [] wr d = (Inr wr, d)"
| "collect_node_runs c (n # ns) wr d =
     (case NodeRun_PostGet c n d of
        (Inl err, d') \<Rightarrow>
          (Inl (WrapError (Some err) ''loadRun> Unable to load workflow nodes run; postGet Error''), d')
      | (Inr wnr, d') \<Rightarrow>
          collect_node_runs c ns
            (wr\<lparr>WorkflowNodeRuns := (WorkflowNodeRuns wr)
                  (WorkflowNodeID wnr \<mapsto>
                     (case WorkflowNodeRuns wr (WorkflowNodeID wnr) of None \<Rightarrow> [] | Some s \<Rightarrow> s)
                       @ [wnr])\<rparr>)
            d')"

text \<open>The slice a Go map holds under a key: the \<^verbatim>\<open>nil\<close> slice when the key is absent.\<close>

definition slice_of :: "'a list option \<Rightarrow> 'a list" where
  "slice_of s = (case s of None \<Rightarrow> [] | Some xs \<Rightarrow> xs)"


text \<open>The fields of a run that are columns of its row, the others set to their zero value.\<close>

definition columns_of :: "WorkflowRun \<Rightarrow> WorkflowRun" where
  "columns_of wr = wr\<lparr>Workflow := Workflow_zero, WorkflowNodeRuns := Map.empty, Infos := [], Tags := []\<rparr>"

definition sort_node_runs :: "WorkflowRun \<Rightarrow> WorkflowRun" where
  "sort_node_runs wr =
     wr\<lparr>WorkflowNodeRuns :=
          (\<lambda>k. map_option (sort_Slice (\<lambda>a b. SubNumber a > SubNumber b)) (WorkflowNodeRuns wr k))\<rparr>"

definition loadRun :: "env \<Rightarrow> query \<Rightarrow> db \<Rightarrow> (error + WorkflowRun) \<times> db" where
  "loadRun c q d =
     (case db_SelectOne_run c q d of
        (Inl err, d1) \<Rightarrow>
          if err = ErrNoRows then (Inl ErrWorkflowNotFound, d1)
          else (Inl (WrapError (Some err) ''loadRun> Unable to load workflow run''), d1)
      | (Inr wr, d1) \<Rightarrow>
     (case db_Select (Select_node_runs (ID wr)) (node_runs_of (ID wr)) d1 of (res, d2) \<Rightarrow>
     (case (case res of
              Inl err \<Rightarrow>
                if err \<noteq> ErrNoRows
                then Inl (WrapError (Some err) ''loadRun> Unable to load workflow nodes run'')
                else Inr []
            | Inr rows \<Rightarrow> Inr rows) of
        Inl e \<Rightarrow> (Inl e, d2)
      | Inr dbNodeRuns \<Rightarrow>
     (case collect_node_runs c dbNodeRuns wr d2 of
        (Inl e, d3) \<Rightarrow> (Inl e, d3)
      | (Inr wr1, d3) \<Rightarrow>
          let wr2 = sort_node_runs wr1 in
          (case loadTagsByRunID (ID wr2) d3 of
             (Inl errT, d4) \<Rightarrow>
               (Inl (WrapError (Some errT) ''loadRun> Error loading tags for run %d''), d4)
           | (Inr tags, d4) \<Rightarrow> (Inr (wr2\<lparr>Tags := tags\<rparr>), d4))))))"

definition LoadLastRun :: "env \<Rightarrow> string \<Rightarrow> string \<Rightarrow> db \<Rightarrow> (error + WorkflowRun) \<times> db" where
  "LoadLastRun c projectkey workflowname d = loadRun c (Q_LoadLastRun projectkey workflowname) d"

definition LoadRun :: "env \<Rightarrow> string \<Rightarrow> string \<Rightarrow> int \<Rightarrow> db \<Rightarrow> (error + WorkflowRun) \<times> db" where
  "LoadRun c projectkey workflowname number d =
     loadRun c (Q_LoadRun projectkey workflowname number) d"

definition LoadRunByIDAndProjectKey ::
  "env \<Rightarrow> string \<Rightarrow> int \<Rightarrow> db \<Rightarrow> (error + WorkflowRun) \<times> db" where
  "LoadRunByIDAndProjectKey c projectkey rid d =
     loadRun c (Q_LoadRunByIDAndProjectKey projectkey rid) d"

definition LoadRunByID :: "env \<Rightarrow> int \<Rightarrow> db \<Rightarrow> (error + WorkflowRun) \<times> db" where
  "LoadRunByID c rid d = loadRun c (Q_LoadRunByID rid) d"

definition loadAndLockRunByID :: "env \<Rightarrow> int \<Rightarrow> db \<Rightarrow> (error + WorkflowRun) \<times> db" where
  "loadAndLockRunByID c rid d = loadRun c (Q_loadAndLockRunByID rid) d"

subsection \<open>Listing runs: loadRunTags and LoadRuns\<close>

text \<open>\<^verbatim>\<open>loadRunTags\<close> (lines 226-237).\<close>

definition loadRunTags :: "WorkflowRun \<Rightarrow> db \<Rightarrow> error option \<times> WorkflowRun \<times> db" where
  "loadRunTags run d =
     (case db_Select (Select_tags (ID run)) (tags_of (ID run)) d of
        (Inl err, d') \<Rightarrow> (Some (WrapError (Some err) ''loadRunTags''), run, d')
      | (Inr dbRunTags, d') \<Rightarrow> (None, run\<lparr>Tags := map (\<lambda>t. t) dbRunTags\<rparr>, d'))"

text \<open>
  The page statement: \<^verbatim>\<open>order by workflow_run.start desc limit $3 offset $4\<close>. PostgreSQL
  rejects a negative LIMIT or OFFSET. The rows go into a \<^verbatim>\<open>[]Run\<close>, for whose elements gorp
  runs no hook.
\<close>

definition page_of :: "string \<Rightarrow> string \<Rightarrow> int \<Rightarrow> int \<Rightarrow> db \<Rightarrow> WorkflowRun list" where
  "page_of projectkey workflowname limit offset d =
     map Run_of_row
       (take (nat limit) (drop (nat offset)
          (sort_key (\<lambda>r. - r_start r) (runs_of_workflow projectkey workflowname d))))"

definition db_Select_page ::
  "string \<Rightarrow> string \<Rightarrow> int \<Rightarrow> int \<Rightarrow> db \<Rightarrow> (error + WorkflowRun list) \<times> db" where
  "db_Select_page projectkey workflowname limit offset d =
     (case stmt (logcall (Select_page projectkey workflowname limit offset) d) of
        (Some e, d') \<Rightarrow> (Inl e, d')
      | (None, d') \<Rightarrow>
          if limit < 0 \<or> offset < 0 then (Inl InvalidRowCount, d')
          else (Inr (page_of projectkey workflowname limit offset d'), d'))"

definition count_of :: "string \<Rightarrow> string \<Rightarrow> db \<Rightarrow> int" where
  "count_of projectkey workflowname d = int (length (runs_of_workflow projectkey workflowname d))"

text \<open>The loop of \<^verbatim>\<open>LoadRuns\<close> that loads the tags of each run of the page.\<close>

fun load_page_tags :: "WorkflowRun list \<Rightarrow> db \<Rightarrow> (error + WorkflowRun list) \<times> db" where
  "load_page_tags [] d = (Inr [], d)"
| "load_page_tags (r # rs) d =
     (case loadRunTags r d of
        (Some err, wr, d') \<Rightarrow> (Inl (WrapError (Some err) ''LoadRuns> unable to load tags''), d')
      | (None, wr, d') \<Rightarrow>
          (case load_page_tags rs d' of
             (Inl e, d'') \<Rightarrow> (Inl e, d'')
           | (Inr wruns, d'') \<Rightarrow> (Inr (wr # wruns), d'')))"

text \<open>
  \<^verbatim>\<open>LoadRuns\<close> (lines 184-224); the result is the tuple (runs, offset, limit, count), the
  count being \<open>cnt\<close>. When
  the page statement fails the source wraps \<^verbatim>\<open>errc\<close>, which is \<^verbatim>\<open>nil\<close> there, and not the
  error of the statement.
\<close>

definition LoadRuns ::
  "string \<Rightarrow> string \<Rightarrow> int \<Rightarrow> int \<Rightarrow> db \<Rightarrow> (error + WorkflowRun list \<times> int \<times> int \<times> int) \<times> db" where
  "LoadRuns projectkey workflowname offset limit d =
     (case db_Select (SelectInt_count projectkey workflowname) (count_of projectkey workflowname) d of
        (Inl errc, d1) \<Rightarrow> (Inl (WrapError (Some errc) ''LoadRuns> unable to load runs''), d1)
      | (Inr cnt, d1) \<Rightarrow>
          if cnt = 0 then (Inr ([], 0, 0, 0), d1)
          else
            (case db_Select_page projectkey workflowname limit offset d1 of
               (Inl err, d2) \<Rightarrow> (Inl (WrapError None ''LoadRuns> unable to load runs''), d2)
             | (Inr runs, d2) \<Rightarrow>
                 (case load_page_tags runs d2 of
                    (Inl e, d3) \<Rightarrow> (Inl e, d3)
                  | (Inr wruns, d3) \<Rightarrow> (Inr (wruns, offset, limit, cnt), d3))))"

subsection \<open>GetTagsAndValue\<close>

text \<open>
  The statement of \<^verbatim>\<open>GetTagsAndValue\<close>: \<open>observed_tags\<close> is the join of the inner query with
  its WHERE clause, a (tag, value) pair for every tag row of a run of the workflow; the
  inner \<^verbatim>\<open>SELECT distinct tag, value ... order by value\<close> is \<open>distinct_tags\<close>; the outer query groups by tag, joins the values of each group with
  \<^verbatim>\<open>STRING_AGG(tags.value, ',')\<close> in the order of the inner query, and orders by tag. Strings
  are ordered byte by byte.
\<close>

definition observed_tags :: "string \<Rightarrow> string \<Rightarrow> db \<Rightarrow> (string \<times> string) list" where
  "observed_tags key name d =
     [(Tag t, Value t).
        t \<leftarrow> workflow_run_tag d,
        r \<leftarrow> workflow_run d, WorkflowRunID t = r_id r,
        w \<leftarrow> workflow d, r_workflow_id r = w_id w,
        p \<leftarrow> project d, w_project_id w = p_id p,
        p_projectkey p = key, w_name w = name]"

definition distinct_tags :: "string \<Rightarrow> string \<Rightarrow> db \<Rightarrow> (string \<times> string) list" where
  "distinct_tags key name d = sort_key snd (remdups (observed_tags key name d))"

fun STRING_AGG :: "string list \<Rightarrow> string \<Rightarrow> string" where
  "STRING_AGG [] sep = []"
| "STRING_AGG [v] sep = v"
| "STRING_AGG (v # vs) sep = v @ sep @ STRING_AGG vs sep"

definition values_of_tag :: "string \<Rightarrow> (string \<times> string) list \<Rightarrow> string list" where
  "values_of_tag tag rows = map snd (filter (\<lambda>row. fst row = tag) rows)"

definition tags_values :: "string \<Rightarrow> string \<Rightarrow> db \<Rightarrow> (string \<times> string) list" where
  "tags_values key name d =
     (let tags = distinct_tags key name d
      in map (\<lambda>tag. (tag, STRING_AGG (values_of_tag tag tags) '',''))
           (sort (remdups (map fst tags))))"

text \<open>
  \<^verbatim>\<open>strings.Split(s, sep)\<close> of Go's standard library, for a separator of one character:
  the pieces of \<open>s\<close> between the separators; the empty string gives one empty piece.
\<close>

fun Split :: "string \<Rightarrow> char \<Rightarrow> string list" where
  "Split [] sep = [[]]"
| "Split (c # cs) sep =
     (if c = sep then [] # Split cs sep
      else (case Split cs sep of [] \<Rightarrow> [[c]] | x # xs \<Rightarrow> (c # x) # xs))"

text \<open>\<^verbatim>\<open>GetTagsAndValue\<close> (lines 296-328).\<close>

definition GetTagsAndValue ::
  "string \<Rightarrow> string \<Rightarrow> db \<Rightarrow> (error + (string \<rightharpoonup> string list)) \<times> db" where
  "GetTagsAndValue key name d =
     (case db_Select (Select_tags_values key name) (tags_values key name) d of
        (Inl err, d') \<Rightarrow>
          (Inl (WrapError (Some err) ''GetTagsAndValue> Unable to load tags and values''), d')
      | (Inr res, d') \<Rightarrow>
          (Inr (foldl (\<lambda>rmap r. rmap(fst r \<mapsto> Split (snd r) (CHR '',''))) Map.empty res), d'))"

subsection \<open>nextRunNumber\<close>

text \<open>Modelled from the spec: the stored function \<^verbatim>\<open>workflow_sequences_nextval\<close>, which the
  statement of \<^verbatim>\<open>nextRunNumber\<close> calls and the SQL schema of the repository declares. The spec
  describes it as an atomic, durable increment scoped per workflow: the counter of the
  workflow goes up by one and the new value is returned. The counter is unbounded.\<close>

definition workflow_sequences_nextval :: "int \<Rightarrow> db \<Rightarrow> int \<times> db" where
  "workflow_sequences_nextval wid d =
     (let i = workflow_sequences d wid + 1
      in (i, d\<lparr>workflow_sequences := (workflow_sequences d)(wid := i)\<rparr>))"

text \<open>\<^verbatim>\<open>nextRunNumber\<close> (lines 330-337); the debug log line has no effect on the result.\<close>

definition nextRunNumber :: "Workflow \<Rightarrow> db \<Rightarrow> (error + int) \<times> db" where
  "nextRunNumber w d =
     (case stmt (logcall (SelectInt_nextval (wf_ID w)) d) of
        (Some err, d') \<Rightarrow> (Inl (WrapError (Some err) ''nextRunNumber''), d')
      | (None, d') \<Rightarrow>
          (case workflow_sequences_nextval (wf_ID w) d' of (i, d'') \<Rightarrow> (Inr i, d'')))"

text \<open>
  A history of calls of \<^verbatim>\<open>nextRunNumber\<close>, one per workflow of the list. Each call is a
  single statement, which the database runs atomically, so calls made concurrently take
  effect in some order; the list is that order.
\<close>

fun nextRunNumber_calls :: "Workflow list \<Rightarrow> db \<Rightarrow> (error + int) list \<times> db" where
  "nextRunNumber_calls [] d = ([], d)"
| "nextRunNumber_calls (w # ws) d =
     (case nextRunNumber w d of
        (res, d') \<Rightarrow> (case nextRunNumber_calls ws d' of (ress, d'') \<Rightarrow> (res # ress, d'')))"

subsection \<open>Concrete databases and runs for the examples\<close>

definition env0 :: env where
  "env0 = \<lparr>marshalWorkflow = (\<lambda>w. Inr ''{}''),
           marshalInfos = (\<lambda>i. Inr ''[]''),
           unmarshalWorkflow = (\<lambda>s. if s = ''{}'' then Inr Workflow_zero else Inl (JsonError s)),
           unmarshalInfos = (\<lambda>s. if s = ''[]'' then Inr [] else Inl (JsonError s)),
           NodeRun_PostGet = (\<lambda>n d. (Inr n, d))\<rparr>"

definition row1 :: run_row where
  "row1 = \<lparr>r_id = 1, r_project_id = 1, r_workflow_id = 1, r_num = 1, r_start = 100,
           r_last_modified = 100, r_status = ''Building'', r_workflow = None, r_infos = None\<rparr>"

definition db0 :: db where
  "db0 = \<lparr>project = [\<lparr>p_id = 1, p_projectkey = ''KEY''\<rparr>],
          workflow = [\<lparr>w_id = 1, w_project_id = 1, w_name = ''wf''\<rparr>],
          workflow_run = [row1],
          workflow_node_run = [],
          workflow_run_tag = [],
          tag_accepts = (\<lambda>rows t. True),
          workflow_sequences = (\<lambda>w. 0),
          locked = [], held = [], faults = [], calls = []\<rparr>"

definition run1 :: WorkflowRun where
  "run1 = Run_zero\<lparr>ID := 1, Number := 1, ProjectID := 1, WorkflowID := 1, Start := 100,
            LastModified := 100, Status := ''Building''\<rparr>"

definition runE :: WorkflowRun where
  "runE = run1\<lparr>Status := ''Success'', Infos := [\<lparr>Message = ''boom'', IsError = True\<rparr>]\<rparr>"

definition runA :: WorkflowRun where
  "runA = run1\<lparr>Status := ''Success''\<rparr>"

definition tagM :: WorkflowRunTag where
  "tagM = \<lparr>WorkflowRunID = 0, Tag = ''branch'', Value = ''main''\<rparr>"

definition runD :: WorkflowRun where
  "runD = run1\<lparr>Tags := [tagM, tagM]\<rparr>"

text \<open>A database whose tag table has the primary key (workflow\_run\_id, tag).\<close>

definition db_tag_key :: db where
  "db_tag_key = db0\<lparr>tag_accepts :=
     (\<lambda>rows t. \<not> list_ex (\<lambda>u. WorkflowRunID u = WorkflowRunID t \<and> Tag u = Tag t) rows)\<rparr>"

definition db_tags :: db where
  "db_tags = db0\<lparr>workflow_run_tag :=
               [\<lparr>WorkflowRunID = 1, Tag = ''branch'', Value = ''old''\<rparr>,
                \<lparr>WorkflowRunID = 2, Tag = ''branch'', Value = ''dev''\<rparr>]\<rparr>"

text \<open>The sub-numbers of the node runs that a load returned for node \<open>k\<close>.\<close>

definition returned_sub_numbers :: "(error + WorkflowRun) \<times> db \<Rightarrow> int \<Rightarrow> int list option" where
  "returned_sub_numbers res k =
     (case fst res of
        Inl e \<Rightarrow> None
      | Inr wr \<Rightarrow> map_option (map SubNumber) (WorkflowNodeRuns wr k))"

definition node_run :: "int \<Rightarrow> int \<Rightarrow> int \<Rightarrow> WorkflowNodeRun" where
  "node_run i node sub =
     \<lparr>nr_ID = i, nr_WorkflowRunID = 1, WorkflowNodeID = node, SubNumber = sub,
      nr_Status = ''Success''\<rparr>"



definition db_locked :: db where
  "db_locked = db0\<lparr>locked := [1]\<rparr>"

definition db_malformed :: db where
  "db_malformed = db0\<lparr>workflow_run := [row1\<lparr>r_infos := Some ''{oops''\<rparr>]\<rparr>"

text \<open>The values that \<^verbatim>\<open>GetTagsAndValue\<close> returned for a tag.\<close>

definition returned_values ::
  "(error + (string \<rightharpoonup> string list)) \<times> db \<Rightarrow> string \<Rightarrow> string list option" where
  "returned_values res tag = (case fst res of Inl e \<Rightarrow> None | Inr m \<Rightarrow> m tag)"

definition db_comma :: db where
  "db_comma = db0\<lparr>workflow_run_tag :=
     [\<lparr>WorkflowRunID = 1, Tag = ''git.author'', Value = ''Doe, John''\<rparr>]\<rparr>"

definition row2 :: run_row where
  "row2 = row1\<lparr>r_id := 2, r_num := 2\<rparr>"

definition db_two_values :: db where
  "db_two_values = db0\<lparr>workflow_run := [row1, row2],
     workflow_run_tag :=
       [\<lparr>WorkflowRunID = 1, Tag = ''branch'', Value = ''a,b''\<rparr>,
        \<lparr>WorkflowRunID = 2, Tag = ''branch'', Value = ''a''\<rparr>]\<rparr>"

definition db_branches :: db where
  "db_branches = db0\<lparr>workflow_run := [row1, row2],
     workflow_run_tag :=
       [\<lparr>WorkflowRunID = 1, Tag = ''branch'', Value = ''main''\<rparr>,
        \<lparr>WorkflowRunID = 2, Tag = ''branch'', Value = ''dev''\<rparr>,
        \<lparr>WorkflowRunID = 2, Tag = ''branch'', Value = ''main''\<rparr>]\<rparr>"

definition wfA :: Workflow where
  "wfA = \<lparr>wf_ID = 1, wf_ProjectKey = ''KEY'', wf_Name = ''HelloPipeline''\<rparr>"

definition wfB :: Workflow where
  "wfB = \<lparr>wf_ID = 2, wf_ProjectKey = ''KEY'', wf_Name = ''other''\<rparr>"

text \<open>Two runs, the first with decodable blobs, a tag and node runs of two nodes.\<close>

definition db_full :: db where
  "db_full = db0\<lparr>workflow_run := [row1\<lparr>r_workflow := Some ''{}'', r_infos := Some ''[]''\<rparr>, row2],
     workflow_node_run := [node_run 1 7 0, node_run 2 8 0, node_run 3 7 1],
     workflow_run_tag :=
       [\<lparr>WorkflowRunID = 1, Tag = ''branch'', Value = ''main''\<rparr>,
        \<lparr>WorkflowRunID = 2, Tag = ''branch'', Value = ''dev''\<rparr>]\<rparr>"

section \<open>Properties\<close>



subsection \<open>The status column under the writing functions\<close>

lemma force_fail_eq:
  "force_fail infos w = (if \<exists>i\<in>set infos. IsError i then w\<lparr>Status := StatusFail\<rparr> else w)"
  by (induction infos arbitrary: w) auto

lemma stmt_tables:
  "stmt d = (e, d') \<Longrightarrow> workflow_run d' = workflow_run d \<and> workflow_run_tag d' = workflow_run_tag d
     \<and> workflow_node_run d' = workflow_node_run d \<and> project d' = project d \<and> workflow d' = workflow d
     \<and> workflow_sequences d' = workflow_sequences d \<and> locked d' = locked d \<and> held d' = held d
     \<and> calls d' = calls d \<and> tag_accepts d' = tag_accepts d"
  by (auto simp: stmt_def split: list.splits)

lemma insert_tag_rows_Cons_cases:
  assumes "insert_tag_rows (t # ts) d = (e, d')"
  obtains (fault) err where "stmt d = (Some err, d')" "e = Some err"
  | (reject) "stmt d = (None, d')" "\<not> tag_accepts d' (workflow_run_tag d') t"
      "e = Some UniqueViolation"
  | (ok) d1 where "stmt d = (None, d1)" "tag_accepts d1 (workflow_run_tag d1) t"
      "insert_tag_rows ts (d1\<lparr>workflow_run_tag := workflow_run_tag d1 @ [t]\<rparr>) = (e, d')"
proof -
  obtain f d1 where s: "stmt d = (f, d1)" by (cases "stmt d")
  show thesis
  proof (cases f)
    case (Some err)
    with assms s fault show ?thesis by auto
  next
    case None
    show ?thesis
    proof (cases "tag_accepts d1 (workflow_run_tag d1) t")
      case True
      with assms s None ok show ?thesis by auto
    next
      case False
      with assms s None reject show ?thesis by auto
    qed
  qed
qed

lemma insert_tag_rows_workflow_run:
  "insert_tag_rows ts d = (e, d') \<Longrightarrow> workflow_run d' = workflow_run d"
proof (induction ts arbitrary: d)
  case Nil
  then show ?case by simp
next
  case (Cons t ts)
  from Cons.prems show ?case
  proof (cases rule: insert_tag_rows_Cons_cases)
    case (fault err)
    then show ?thesis by (auto dest: stmt_tables)
  next
    case reject
    then show ?thesis by (auto dest: stmt_tables)
  next
    case (ok d1)
    from Cons.IH[OF ok(3)] stmt_tables[OF ok(1)] show ?thesis by simp
  qed
qed

lemma db_Exec_cases:
  assumes "db_Exec c f d = (e, d')"
  obtains (fault) err where "e = Some err" "stmt (logcall c d) = (Some err, d')"
        | (ok) d1 where "e = None" "stmt (logcall c d) = (None, d1)" "d' = f d1"
  using assms unfolding db_Exec_def by (auto split: prod.splits option.splits)

lemma updateTags_workflow_run:
  assumes "updateTags r d = (e, r', d')" shows "workflow_run d' = workflow_run d"
proof -
  obtain e1 d1 where x: "db_Exec (Exec_delete_tags (ID r)) (delete_tags (ID r)) d = (e1, d1)"
    by (cases "db_Exec (Exec_delete_tags (ID r)) (delete_tags (ID r)) d")
  have d1: "workflow_run d1 = workflow_run d"
    using x by (cases rule: db_Exec_cases) (auto dest!: stmt_tables simp: logcall_def delete_tags_def)
  show ?thesis
    using assms x d1
    by (auto simp: updateTags_def Let_def db_Insert_tags_def logcall_def
             split: option.splits prod.splits if_splits dest!: insert_tag_rows_workflow_run)
qed

lemma filter_id_map:
  "(\<And>x. r_id (g x) = r_id x) \<Longrightarrow>
   filter (\<lambda>row. r_id row = k) (map g rows) = map g (filter (\<lambda>row. r_id row = k) rows)"
  by (induction rows) auto

lemma persisted_status_store_blobs:
  "persisted_status (store_blobs rid i w d) k = persisted_status d k"
  by (simp add: persisted_status_def store_blobs_def filter_id_map)

lemma persisted_status_update_run_row:
  "persisted_status (update_run_row r d) (ID r) =
   map (\<lambda>_. Status r) (persisted_status d (ID r))"
  by (simp add: persisted_status_def update_run_row_def filter_id_map)

lemma persisted_status_set_status:
  "persisted_status (set_status rid s now d) rid = map (\<lambda>_. s) (persisted_status d rid)"
  by (simp add: persisted_status_def set_status_def filter_id_map)

lemma persisted_status_cong:
  "workflow_run d' = workflow_run d \<Longrightarrow> persisted_status d' k = persisted_status d k"
  by (simp add: persisted_status_def)

lemma PostInsert_persisted_status:
  assumes "PostInsert c r d = (e, r', d')"
  shows "persisted_status d' k = persisted_status d k"
proof (cases "marshalWorkflow c (Workflow r)")
  case (Inl errw)
  with assms show ?thesis by (simp add: PostInsert_def)
next
  case w: (Inr w)
  show ?thesis
  proof (cases "marshalInfos c (Infos r)")
    case (Inl erri)
    with assms w show ?thesis by (simp add: PostInsert_def)
  next
    case i: (Inr i)
    obtain e1 d1 where x: "db_Exec (Exec_update_blobs (ID r)) (store_blobs (ID r) i w) d = (e1, d1)"
      by (cases "db_Exec (Exec_update_blobs (ID r)) (store_blobs (ID r) i w) d")
    have d1: "persisted_status d1 k = persisted_status d k"
      using x
    proof (cases rule: db_Exec_cases)
      case (fault err)
      then have "workflow_run d1 = workflow_run d"
        by (auto dest!: stmt_tables simp: logcall_def)
      then show ?thesis
        by (rule persisted_status_cong)
    next
      case (ok d0)
      then have "workflow_run d0 = workflow_run d"
        by (auto dest!: stmt_tables simp: logcall_def)
      then have "persisted_status d0 k = persisted_status d k"
        by (rule persisted_status_cong)
      with ok show ?thesis
        by (simp add: persisted_status_store_blobs)
    qed
    show ?thesis
    proof (cases e1)
      case (Some a)
      with assms w i x d1 show ?thesis by (simp add: PostInsert_def)
    next
      case None
      obtain e2 r2 d2 where t: "updateTags r d1 = (e2, r2, d2)"
        by (cases "updateTags r d1")
      from updateTags_workflow_run[OF t] have "persisted_status d2 k = persisted_status d1 k"
        by (rule persisted_status_cong)
      with assms w i x d1 None t show ?thesis
        by (cases e2) (simp_all add: PostInsert_def)
    qed
  qed
qed

lemma db_Update_run_persisted:
  assumes "db_Update_run c r d = (None, r', d')"
  shows "persisted_status d' (ID r) = map (\<lambda>_. Status r) (persisted_status d (ID r))"
proof -
  obtain e1 d1 where x: "db_Exec (Update_run (ID r)) (update_run_row r) d = (e1, d1)"
    by (cases "db_Exec (Update_run (ID r)) (update_run_row r) d")
  with assms have e1: "e1 = None" and p: "PostInsert c r d1 = (None, r', d')"
    by (auto simp: db_Update_run_def PostUpdate_def split: option.splits)
  from x e1 obtain d0 where "stmt (logcall (Update_run (ID r)) d) = (None, d0)" "d1 = update_run_row r d0"
    by (cases rule: db_Exec_cases) auto
  then have "persisted_status d1 (ID r) = map (\<lambda>_. Status r) (persisted_status d (ID r))"
    using persisted_status_cong[of d0 d "ID r"]
    by (auto dest!: stmt_tables simp: logcall_def persisted_status_update_run_row)
  with PostInsert_persisted_status[OF p] show ?thesis by simp
qed

subsection \<open>C1: an error info entry forces the status Fail\<close>

text \<open>
  \<^bold>\<open>C1.\<close> For every run whose infos list contains at least one entry flagged as an error,
  any update of that run through \<^verbatim>\<open>updateWorkflowRun\<close> sets the run's status to Fail, whatever
  the statuses of its node runs: the struct comes back with status Fail on every path, and
  when the update succeeds every stored row of the run has status Fail.
\<close>

theorem updateWorkflowRun_error_info_forces_Fail:
  assumes "\<exists>info\<in>set (Infos w). IsError info"
    and "updateWorkflowRun c now w d = (err, w', d')"
  shows "Status w' = StatusFail \<and>
         (err = None \<longrightarrow>
            persisted_status d' (ID w) = map (\<lambda>_. StatusFail) (persisted_status d (ID w)))"
proof -
  let ?w2 = "(w\<lparr>LastModified := now\<rparr>)\<lparr>Status := StatusFail\<rparr>"
  have ff: "force_fail (Infos (w\<lparr>LastModified := now\<rparr>)) (w\<lparr>LastModified := now\<rparr>) = ?w2"
    using assms(1) by (simp add: force_fail_eq)
  obtain e1 runDB d1 where u: "db_Update_run c ?w2 d = (e1, runDB, d1)"
    by (cases "db_Update_run c ?w2 d")
  have st: "Status w' = StatusFail"
    using assms(2) ff u by (cases e1) (auto simp: updateWorkflowRun_def Let_def)
  have "persisted_status d' (ID w) = map (\<lambda>_. StatusFail) (persisted_status d (ID w))"
    if "err = None"
  proof -
    from that assms(2) ff u have "e1 = None" "d' = d1"
      by (cases e1; auto simp: updateWorkflowRun_def Let_def)+
    with u db_Update_run_persisted[of c ?w2 d runDB d1] show ?thesis by simp
  qed
  with st show ?thesis by blast
qed

text \<open>The unfolding rules that evaluate the database primitives on a concrete database.\<close>

lemmas db_eval = stmt_def logcall_def db_Exec_def db_Select_def db_Insert_tags_def delete_tags_def
  store_blobs_def update_run_row_def set_status_def persisted_status_def one_row_def

theorem updateWorkflowRun_error_info_forces_Fail_witness:
  "(\<exists>info\<in>set (Infos runE). IsError info) \<and>
   (case updateWorkflowRun env0 5 runE db0 of
      (err, w', d') \<Rightarrow> err = None \<and> Status w' = StatusFail \<and> persisted_status d' 1 = [StatusFail])"
proof -
  have h: "\<exists>info\<in>set (Infos runE). IsError info"
    by (simp add: runE_def run1_def Run_zero_def)
  obtain err w' d' where r: "updateWorkflowRun env0 5 runE db0 = (err, w', d')"
    by (cases "updateWorkflowRun env0 5 runE db0")
  have "fst (updateWorkflowRun env0 5 runE db0) = None"
    by (simp add: updateWorkflowRun_def db_Update_run_def PostUpdate_def PostInsert_def updateTags_def
       db_eval env0_def db0_def runE_def run1_def Run_zero_def row1_def Let_def)
  with r have e: "err = None" by simp
  have p: "persisted_status db0 (ID runE) = [''Building'']" and i: "ID runE = 1"
    by (simp_all add: persisted_status_def db0_def row1_def runE_def run1_def Run_zero_def)
  from updateWorkflowRun_error_info_forces_Fail[OF h r] e p i h r show ?thesis by simp
qed


subsection \<open>C2: the stored status is the one the caller hands over\<close>

lemma UpdateWorkflowRunStatus_persisted:
  assumes "UpdateWorkflowRunStatus now rid status d = (None, d')"
  shows "persisted_status d' rid = map (\<lambda>_. status) (persisted_status d rid)"
proof -
  obtain e1 d1 where x: "db_Exec (Exec_update_status rid status) (set_status rid status now) d = (e1, d1)"
    by (cases "db_Exec (Exec_update_status rid status) (set_status rid status now) d")
  with assms have "e1 = None" "d1 = d'"
    by (auto simp: UpdateWorkflowRunStatus_def split: option.splits)
  with x obtain d0 where s: "stmt (logcall (Exec_update_status rid status) d) = (None, d0)"
      and d': "d' = set_status rid status now d0"
    by (cases rule: db_Exec_cases) auto
  from s have "workflow_run d0 = workflow_run d"
    by (auto dest!: stmt_tables simp: logcall_def)
  then have "persisted_status d0 rid = persisted_status d rid"
    by (rule persisted_status_cong)
  with d' show ?thesis
    by (simp add: persisted_status_set_status)
qed

text \<open>
  \<^bold>\<open>C2\<close>, as the code has it. \<^verbatim>\<open>updateWorkflowRun\<close> stores Fail when an info entry of
  the run is flagged as an error and otherwise the status the run carries, as its caller
  set it; \<^verbatim>\<open>UpdateWorkflowRunStatus\<close> stores the status it is given. Neither reads the
  statuses of the node runs.
\<close>

theorem status_persisted_as_given:
  "(updateWorkflowRun c now w d = (None, w', d') \<longrightarrow>
      persisted_status d' (ID w) =
        map (\<lambda>_. if \<exists>info\<in>set (Infos w). IsError info then StatusFail else Status w)
          (persisted_status d (ID w))) \<and>
   (UpdateWorkflowRunStatus now rid status d = (None, d'') \<longrightarrow>
      persisted_status d'' rid = map (\<lambda>_. status) (persisted_status d rid))"
proof (intro conjI impI)
  assume a: "updateWorkflowRun c now w d = (None, w', d')"
  let ?w1 = "w\<lparr>LastModified := now\<rparr>"
  let ?w2 = "force_fail (Infos ?w1) ?w1"
  obtain e1 runDB d1 where u: "db_Update_run c ?w2 d = (e1, runDB, d1)"
    by (cases "db_Update_run c ?w2 d")
  from a u have "e1 = None" "d' = d1"
    by (cases e1; simp add: updateWorkflowRun_def Let_def)+
  with u have "persisted_status d' (ID ?w2) = map (\<lambda>_. Status ?w2) (persisted_status d (ID ?w2))"
    using db_Update_run_persisted[of c ?w2 d runDB d1] by simp
  then show "persisted_status d' (ID w) =
        map (\<lambda>_. if \<exists>info\<in>set (Infos w). IsError info then StatusFail else Status w)
          (persisted_status d (ID w))"
    by (cases "\<exists>info\<in>set (Infos w). IsError info") (simp_all add: force_fail_eq)
next
  assume "UpdateWorkflowRunStatus now rid status d = (None, d'')"
  then show "persisted_status d'' rid = map (\<lambda>_. status) (persisted_status d rid)"
    by (rule UpdateWorkflowRunStatus_persisted)
qed

text \<open>The unfolding rules for the writing functions and for the concrete examples.\<close>

lemmas run_eval = updateWorkflowRun_def db_Update_run_def PostUpdate_def PostInsert_def
  updateTags_def UpdateWorkflowRunStatus_def Let_def

lemmas ex_eval = env0_def db0_def row1_def run1_def runA_def runE_def Run_zero_def Workflow_zero_def

theorem status_persisted_as_given_witness:
  "updateWorkflowRun env0 5 runA db0 =
     (None, fst (snd (updateWorkflowRun env0 5 runA db0)), snd (snd (updateWorkflowRun env0 5 runA db0))) \<and>
   persisted_status (snd (snd (updateWorkflowRun env0 5 runA db0))) 1 = [''Success''] \<and>
   UpdateWorkflowRunStatus 5 1 ''Stopped'' db0 = (None, snd (UpdateWorkflowRunStatus 5 1 ''Stopped'' db0)) \<and>
   persisted_status (snd (UpdateWorkflowRunStatus 5 1 ''Stopped'' db0)) 1 = [''Stopped'']"
proof -
  let ?u = "updateWorkflowRun env0 5 runA db0"
  let ?s = "UpdateWorkflowRunStatus 5 1 ''Stopped'' db0"
  have e: "fst ?u = None"
    by (simp add: run_eval db_eval ex_eval)
  then have u: "?u = (None, fst (snd ?u), snd (snd ?u))"
    by (metis prod.collapse)
  have "fst ?s = None"
    by (simp add: run_eval db_eval ex_eval)
  then have s: "?s = (None, snd ?s)"
    by (metis prod.collapse)
  have p: "persisted_status db0 1 = [''Building'']" and i: "ID runA = 1"
    and n: "\<not> (\<exists>info\<in>set (Infos runA). IsError info)" and st: "Status runA = ''Success''"
    by (simp_all add: persisted_status_def ex_eval)
  from status_persisted_as_given[of env0 5 runA db0 "fst (snd ?u)" "snd (snd ?u)" 1 "''Stopped''" "snd ?s"]
    u s p i n st
  show ?thesis by simp
qed

text \<open>
  Two runs with the same node runs and the same infos end with different stored statuses,
  and \<^verbatim>\<open>UpdateWorkflowRunStatus\<close> stores either of two statuses on the same database: the
  stored status is not a function of the node-run statuses and the info entries.
\<close>

theorem status_not_recomputed_counterexample:
  "WorkflowNodeRuns runA = WorkflowNodeRuns run1 \<and> Infos runA = Infos run1 \<and>
   fst (updateWorkflowRun env0 5 runA db0) = None \<and>
   fst (updateWorkflowRun env0 5 run1 db0) = None \<and>
   persisted_status (snd (snd (updateWorkflowRun env0 5 runA db0))) 1 = [''Success''] \<and>
   persisted_status (snd (snd (updateWorkflowRun env0 5 run1 db0))) 1 = [''Building''] \<and>
   persisted_status (snd (UpdateWorkflowRunStatus 5 1 ''Success'' db0)) 1 = [''Success''] \<and>
   persisted_status (snd (UpdateWorkflowRunStatus 5 1 ''Stopped'' db0)) 1 = [''Stopped'']"
  by (simp add: run_eval db_eval ex_eval)

subsection \<open>C6: updateTags deletes, then inserts the list as it is\<close>

lemma insert_tag_rows_calls:
  "insert_tag_rows ts d = (e, d') \<Longrightarrow> calls d' = calls d"
proof (induction ts arbitrary: d)
  case Nil
  then show ?case by simp
next
  case (Cons t ts)
  from Cons.prems show ?case
  proof (cases rule: insert_tag_rows_Cons_cases)
    case (fault err)
    then show ?thesis by (auto dest: stmt_tables)
  next
    case reject
    then show ?thesis by (auto dest: stmt_tables)
  next
    case (ok d1)
    from Cons.IH[OF ok(3)] stmt_tables[OF ok(1)] show ?thesis by simp
  qed
qed

lemma insert_tag_rows_ok:
  "insert_tag_rows ts d = (None, d') \<Longrightarrow> workflow_run_tag d' = workflow_run_tag d @ ts"
proof (induction ts arbitrary: d)
  case Nil
  then show ?case by simp
next
  case (Cons t ts)
  from Cons.prems show ?case
  proof (cases rule: insert_tag_rows_Cons_cases)
    case (ok d1)
    from Cons.IH[OF ok(3)] stmt_tables[OF ok(1)] show ?thesis by simp
  qed simp_all
qed

text \<open>
  A table that accepts no row equal to one it holds makes the insert of a list fail when
  the list repeats a row or holds a row of the table.
\<close>

lemma insert_tag_rows_rejects:
  assumes "\<And>rows t. t \<in> set rows \<Longrightarrow> \<not> tag_accepts d rows t"
    and "\<not> distinct ts \<or> (\<exists>t\<in>set ts. t \<in> set (workflow_run_tag d))"
  shows "fst (insert_tag_rows ts d) \<noteq> None"
  using assms
proof (induction ts arbitrary: d)
  case Nil
  then show ?case by simp
next
  case (Cons t ts)
  obtain e d' where i: "insert_tag_rows (t # ts) d = (e, d')"
    by (cases "insert_tag_rows (t # ts) d")
  from i have "e \<noteq> None"
  proof (cases rule: insert_tag_rows_Cons_cases)
    case (fault err)
    then show ?thesis by simp
  next
    case reject
    then show ?thesis by simp
  next
    case (ok d1)
    let ?d2 = "d1\<lparr>workflow_run_tag := workflow_run_tag d1 @ [t]\<rparr>"
    from stmt_tables[OF ok(1)] have t1: "workflow_run_tag d1 = workflow_run_tag d"
      and a1: "tag_accepts d1 = tag_accepts d"
      by simp_all
    from ok(2) t1 a1 Cons.prems(1) have nt: "t \<notin> set (workflow_run_tag d)"
      by auto
    have a2: "\<And>rows u. u \<in> set rows \<Longrightarrow> \<not> tag_accepts ?d2 rows u"
      using Cons.prems(1) a1 by simp
    have "\<not> distinct ts \<or> (\<exists>u\<in>set ts. u \<in> set (workflow_run_tag ?d2))"
      using Cons.prems(2) nt t1 by auto
    from Cons.IH[OF a2 this] ok(3) show ?thesis by simp
  qed
  with i show ?case by simp
qed

lemma updateTags_effect:
  assumes "updateTags r d = (e, r', d')"
  shows "(\<exists>rest. calls d' = calls d @ Exec_delete_tags (ID r) # rest \<and>
            (rest = [] \<or>
             rest = [Insert_tags (map (\<lambda>t. t\<lparr>WorkflowRunID := ID r\<rparr>) (Tags r))] \<and> Tags r \<noteq> []) \<and>
            (e = None \<longrightarrow>
               rest = (if Tags r = [] then []
                       else [Insert_tags (map (\<lambda>t. t\<lparr>WorkflowRunID := ID r\<rparr>) (Tags r))]))) \<and>
         (e = None \<longrightarrow>
            Tags r' = map (\<lambda>t. t\<lparr>WorkflowRunID := ID r\<rparr>) (Tags r) \<and>
            workflow_run_tag d' =
              filter (\<lambda>t. WorkflowRunID t \<noteq> ID r) (workflow_run_tag d) @
              map (\<lambda>t. t\<lparr>WorkflowRunID := ID r\<rparr>) (Tags r) \<and>
            tags_of (ID r) d' = map (\<lambda>t. t\<lparr>WorkflowRunID := ID r\<rparr>) (Tags r))"
proof -
  let ?del = "Exec_delete_tags (ID r)"
  let ?ts = "map (\<lambda>t. t\<lparr>WorkflowRunID := ID r\<rparr>) (Tags r)"
  obtain e1 d1 where x: "db_Exec ?del (delete_tags (ID r)) d = (e1, d1)"
    by (cases "db_Exec ?del (delete_tags (ID r)) d")
  from x show ?thesis
  proof (cases rule: db_Exec_cases)
    case (fault err)
    then have "calls d1 = calls d @ [?del]"
      by (auto dest!: stmt_tables simp: logcall_def)
    with assms x fault show ?thesis
      by (auto simp: updateTags_def)
  next
    case (ok d0)
    then have c1: "calls d1 = calls d @ [?del]"
      and t1: "workflow_run_tag d1 = filter (\<lambda>t. WorkflowRunID t \<noteq> ID r) (workflow_run_tag d)"
      by (auto dest!: stmt_tables simp: logcall_def delete_tags_def)
    show ?thesis
    proof (cases "Tags r = []")
      case True
      with assms x ok c1 t1 show ?thesis
        by (auto simp: updateTags_def tags_of_def)
    next
      case False
      obtain e2 d2 where i: "insert_tag_rows ?ts (logcall (Insert_tags ?ts) d1) = (e2, d2)"
        by (cases "insert_tag_rows ?ts (logcall (Insert_tags ?ts) d1)")
      from insert_tag_rows_calls[OF i] c1
      have c2: "calls d2 = calls d @ [?del, Insert_tags ?ts]"
        by (simp add: logcall_def)
      have x1: "db_Exec ?del (delete_tags (ID r)) d = (None, d1)"
        using x ok(1) by simp
      have ut: "updateTags r d =
          (case e2 of
             Some err \<Rightarrow> (Some (WrapError (Some err) ''Run.updateTags> Unable to store tags''),
                          r\<lparr>Tags := ?ts\<rparr>, d2)
           | None \<Rightarrow> (None, r\<lparr>Tags := ?ts\<rparr>, d2))"
        using False by (simp add: updateTags_def Let_def db_Insert_tags_def x1 i)
      have r': "e = None \<longrightarrow> Tags r' = ?ts" and d': "d' = d2" and e: "e = None \<longleftrightarrow> e2 = None"
        using assms unfolding ut by (cases e2; auto)+
      have "workflow_run_tag d2 = filter (\<lambda>t. WorkflowRunID t \<noteq> ID r) (workflow_run_tag d) @ ?ts"
        if "e2 = None"
        using insert_tag_rows_ok[of ?ts "logcall (Insert_tags ?ts) d1" d2] i that t1
        by (simp add: logcall_def)
      then have t2: "e = None \<longrightarrow>
          workflow_run_tag d' = filter (\<lambda>t. WorkflowRunID t \<noteq> ID r) (workflow_run_tag d) @ ?ts"
        using d' e by simp
      have "filter (\<lambda>t. WorkflowRunID t = ID r)
              (filter (\<lambda>t. WorkflowRunID t \<noteq> ID r) (workflow_run_tag d) @ ?ts) = ?ts"
        by (simp add: filter_map comp_def)
      with t2 have t3: "e = None \<longrightarrow> tags_of (ID r) d' = ?ts"
        by (simp add: tags_of_def)
      have cd: "calls d' = calls d @ ?del # [Insert_tags ?ts]"
        using c2 d' by simp
      have A: "\<exists>rest. calls d' = calls d @ ?del # rest \<and>
            (rest = [] \<or> rest = [Insert_tags ?ts] \<and> Tags r \<noteq> []) \<and>
            (e = None \<longrightarrow> rest = (if Tags r = [] then [] else [Insert_tags ?ts]))"
        using cd False by (intro exI[of _ "[Insert_tags ?ts]"]) simp
      from r' t2 t3 have B: "e = None \<longrightarrow>
            Tags r' = ?ts \<and>
            workflow_run_tag d' =
              filter (\<lambda>t. WorkflowRunID t \<noteq> ID r) (workflow_run_tag d) @ ?ts \<and>
            tags_of (ID r) d' = ?ts"
        by simp
      from A B show ?thesis by (rule conjI)
    qed
  qed
qed

lemma updateTags_rejected_duplicates:
  assumes "updateTags r d = (e, r', d')"
    and "\<And>rows t. t \<in> set rows \<Longrightarrow> \<not> tag_accepts d rows t"
    and "\<not> distinct (map (\<lambda>t. t\<lparr>WorkflowRunID := ID r\<rparr>) (Tags r))"
  shows "e \<noteq> None"
proof -
  let ?del = "Exec_delete_tags (ID r)"
  let ?ts = "map (\<lambda>t. t\<lparr>WorkflowRunID := ID r\<rparr>) (Tags r)"
  obtain e1 d1 where x: "db_Exec ?del (delete_tags (ID r)) d = (e1, d1)"
    by (cases "db_Exec ?del (delete_tags (ID r)) d")
  from x show ?thesis
  proof (cases rule: db_Exec_cases)
    case (fault err)
    with assms(1) x show ?thesis
      by (auto simp: updateTags_def)
  next
    case (ok d0)
    then have a1: "tag_accepts (logcall (Insert_tags ?ts) d1) = tag_accepts d"
      by (auto dest!: stmt_tables simp: logcall_def delete_tags_def)
    from assms(3) have ne: "Tags r \<noteq> []"
      by auto
    have "fst (insert_tag_rows ?ts (logcall (Insert_tags ?ts) d1)) \<noteq> None"
      using assms(2,3) a1 by (intro insert_tag_rows_rejects) simp_all
    then obtain err d2 where "insert_tag_rows ?ts (logcall (Insert_tags ?ts) d1) = (Some err, d2)"
      by (cases "insert_tag_rows ?ts (logcall (Insert_tags ?ts) d1)") auto
    with assms(1) x ok(1) ne show ?thesis
      by (auto simp: updateTags_def Let_def db_Insert_tags_def)
  qed
qed

text \<open>
  \<^bold>\<open>C6\<close>, as the code has it. Every tag replacement through \<^verbatim>\<open>updateTags\<close> first issues the
  statement that deletes all tag rows of the run and then, unless the run's tag list is
  empty, one insert call with the whole list, stamped with the run's id; no other call is
  made, and none after a failed delete. When the replacement succeeds the table holds the
  rows of the other runs followed by one row for every entry of the list, in order:
  \<^verbatim>\<open>updateTags\<close> removes no duplicate. A list that repeats a key/value pair is stored with
  the repetition when the table accepts it, and makes the replacement fail when the table
  accepts no row equal to one it holds.
\<close>

theorem updateTags_delete_then_insert:
  assumes "updateTags r d = (e, r', d')"
  shows "(\<exists>rest. calls d' = calls d @ Exec_delete_tags (ID r) # rest \<and>
            (rest = [] \<or>
             rest = [Insert_tags (map (\<lambda>t. t\<lparr>WorkflowRunID := ID r\<rparr>) (Tags r))] \<and> Tags r \<noteq> []) \<and>
            (e = None \<longrightarrow>
               rest = (if Tags r = [] then []
                       else [Insert_tags (map (\<lambda>t. t\<lparr>WorkflowRunID := ID r\<rparr>) (Tags r))]))) \<and>
         (e = None \<longrightarrow>
            Tags r' = map (\<lambda>t. t\<lparr>WorkflowRunID := ID r\<rparr>) (Tags r) \<and>
            workflow_run_tag d' =
              filter (\<lambda>t. WorkflowRunID t \<noteq> ID r) (workflow_run_tag d) @
              map (\<lambda>t. t\<lparr>WorkflowRunID := ID r\<rparr>) (Tags r) \<and>
            tags_of (ID r) d' = map (\<lambda>t. t\<lparr>WorkflowRunID := ID r\<rparr>) (Tags r)) \<and>
         ((\<forall>rows t. t \<in> set rows \<longrightarrow> \<not> tag_accepts d rows t) \<and>
          \<not> distinct (map (\<lambda>t. t\<lparr>WorkflowRunID := ID r\<rparr>) (Tags r)) \<longrightarrow> e \<noteq> None)"
proof -
  have "(\<forall>rows t. t \<in> set rows \<longrightarrow> \<not> tag_accepts d rows t) \<and>
          \<not> distinct (map (\<lambda>t. t\<lparr>WorkflowRunID := ID r\<rparr>) (Tags r)) \<longrightarrow> e \<noteq> None"
    using updateTags_rejected_duplicates[OF assms] by blast
  with updateTags_effect[OF assms] show ?thesis
    by (intro conjI) (erule conjE, assumption)+
qed

theorem updateTags_delete_then_insert_witness:
  "(case updateTags runD db_tags of
      (e, r', d') \<Rightarrow>
        e = None \<and> Tags r' = [tagM\<lparr>WorkflowRunID := 1\<rparr>, tagM\<lparr>WorkflowRunID := 1\<rparr>] \<and>
        calls d' =
          [Exec_delete_tags 1,
           Insert_tags [tagM\<lparr>WorkflowRunID := 1\<rparr>, tagM\<lparr>WorkflowRunID := 1\<rparr>]] \<and>
        workflow_run_tag d' =
          [\<lparr>WorkflowRunID = 2, Tag = ''branch'', Value = ''dev''\<rparr>,
           tagM\<lparr>WorkflowRunID := 1\<rparr>, tagM\<lparr>WorkflowRunID := 1\<rparr>]) \<and>
   (case updateTags run1 db_tags of
      (e, r', d') \<Rightarrow>
        e = None \<and> calls d' = [Exec_delete_tags 1] \<and>
        workflow_run_tag d' = [\<lparr>WorkflowRunID = 2, Tag = ''branch'', Value = ''dev''\<rparr>]) \<and>
   \<not> distinct (map (\<lambda>t. t\<lparr>WorkflowRunID := ID runD\<rparr>) (Tags runD)) \<and>
   fst (updateTags runD db_tag_key) \<noteq> None"
proof -
  note th = updateTags_delete_then_insert
  obtain e r' d' where u: "updateTags runD db_tags = (e, r', d')"
    by (cases "updateTags runD db_tags")
  obtain e0 r0 d0 where v: "updateTags run1 db_tags = (e0, r0, d0)"
    by (cases "updateTags run1 db_tags")
  obtain e1 r1 d1 where k: "updateTags runD db_tag_key = (e1, r1, d1)"
    by (cases "updateTags runD db_tag_key")
  have "fst (updateTags runD db_tags) = None" "fst (updateTags run1 db_tags) = None"
    by (simp_all add: run_eval db_eval ex_eval runD_def db_tags_def)
  with u v have e: "e = None" "e0 = None" by simp_all
  have f: "ID runD = 1" "Tags runD = [tagM, tagM]" "ID run1 = 1" "Tags run1 = []"
    "calls db_tags = []"
    "workflow_run_tag db_tags =
       [\<lparr>WorkflowRunID = 1, Tag = ''branch'', Value = ''old''\<rparr>,
        \<lparr>WorkflowRunID = 2, Tag = ''branch'', Value = ''dev''\<rparr>]"
    by (simp_all add: ex_eval runD_def db_tags_def)
  from th[OF u, THEN conjunct1] th[OF u, THEN conjunct2, THEN conjunct1] e f u
  have 1: "case updateTags runD db_tags of
      (e, r', d') \<Rightarrow>
        e = None \<and> Tags r' = [tagM\<lparr>WorkflowRunID := 1\<rparr>, tagM\<lparr>WorkflowRunID := 1\<rparr>] \<and>
        calls d' =
          [Exec_delete_tags 1,
           Insert_tags [tagM\<lparr>WorkflowRunID := 1\<rparr>, tagM\<lparr>WorkflowRunID := 1\<rparr>]] \<and>
        workflow_run_tag d' =
          [\<lparr>WorkflowRunID = 2, Tag = ''branch'', Value = ''dev''\<rparr>,
           tagM\<lparr>WorkflowRunID := 1\<rparr>, tagM\<lparr>WorkflowRunID := 1\<rparr>]"
    by auto
  from th[OF v, THEN conjunct1] th[OF v, THEN conjunct2, THEN conjunct1] e f v
  have 2: "case updateTags run1 db_tags of
      (e, r', d') \<Rightarrow>
        e = None \<and> calls d' = [Exec_delete_tags 1] \<and>
        workflow_run_tag d' = [\<lparr>WorkflowRunID = 2, Tag = ''branch'', Value = ''dev''\<rparr>]"
    by auto
  have 3: "\<forall>rows t. t \<in> set rows \<longrightarrow> \<not> tag_accepts db_tag_key rows t"
    by (auto simp: db_tag_key_def list_ex_iff)
  have 4: "\<not> distinct (map (\<lambda>t. t\<lparr>WorkflowRunID := ID runD\<rparr>) (Tags runD))"
    by (simp add: f)
  from th[OF k, THEN conjunct2, THEN conjunct2, rule_format, OF conjI, OF 3 4] k
  have 5: "fst (updateTags runD db_tag_key) \<noteq> None"
    by simp
  from 1 2 4 5 show ?thesis by (intro conjI)
qed

text \<open>A tag list with the same key/value pair twice is stored as two equal rows.\<close>

theorem updateTags_duplicates_counterexample:
  "fst (updateTags runD db0) = None \<and>
   workflow_run_tag (snd (snd (updateTags runD db0))) =
     [\<lparr>WorkflowRunID = 1, Tag = ''branch'', Value = ''main''\<rparr>,
      \<lparr>WorkflowRunID = 1, Tag = ''branch'', Value = ''main''\<rparr>]"
  by (simp add: run_eval db_eval ex_eval runD_def tagM_def)

subsection \<open>C7: what LoadRuns returns\<close>

lemma db_Select_cases:
  assumes "db_Select c rows d = (res, d')"
  obtains (fault) err where "res = Inl err" "stmt (logcall c d) = (Some err, d')"
        | (ok) "res = Inr (rows d')" "stmt (logcall c d) = (None, d')"
  using assms unfolding db_Select_def by (auto split: prod.splits option.splits)

lemma db_Select_calls:
  "db_Select c rows d = (res, d') \<Longrightarrow> calls d' = calls d @ [c]"
  by (erule db_Select_cases) (auto dest!: stmt_tables simp: logcall_def)

lemma runs_of_workflow_cong:
  "workflow_run d' = workflow_run d \<Longrightarrow> project d' = project d \<Longrightarrow> workflow d' = workflow d \<Longrightarrow>
   runs_of_workflow k n d' = runs_of_workflow k n d"
  unfolding runs_of_workflow_def by (erule ssubst)+ (rule refl)

lemma db_Select_count:
  assumes "db_Select c (count_of k n) d = (Inr cnt, d')"
  shows "cnt = count_of k n d"
proof -
  from assms have s: "stmt (logcall c d) = (None, d')" and c: "cnt = count_of k n d'"
    by (auto elim!: db_Select_cases)
  from stmt_tables[OF s] have "runs_of_workflow k n d' = runs_of_workflow k n d"
    by (intro runs_of_workflow_cong) (simp_all add: logcall_def)
  with c show ?thesis by (simp add: count_of_def)
qed

text \<open>
  \<^bold>\<open>C7\<close>, as the code has it. A successful call of \<^verbatim>\<open>LoadRuns\<close> that finds at least one matching
  run returns the offset and the limit it was given and the total count of matching runs.
  When no run matches, the call returns no runs and 0 for the offset, the limit and the
  count, and the only call it made on the database is the count statement: the page
  statement is not issued.
\<close>

theorem LoadRuns_result:
  "(LoadRuns projectkey workflowname offset limit d = (Inr (runs, off, lim, cnt), d') \<longrightarrow>
      (if count_of projectkey workflowname d = 0
       then runs = [] \<and> off = 0 \<and> lim = 0 \<and> cnt = 0 \<and>
            calls d' = calls d @ [SelectInt_count projectkey workflowname]
       else off = offset \<and> lim = limit \<and> cnt = count_of projectkey workflowname d)) \<and>
   (count_of projectkey workflowname d = 0 \<and> fst (stmt d) = None \<longrightarrow>
      fst (LoadRuns projectkey workflowname offset limit d) = Inr ([], 0, 0, 0))"
proof (intro conjI impI)
  assume a: "LoadRuns projectkey workflowname offset limit d = (Inr (runs, off, lim, cnt), d')"
  let ?c = "SelectInt_count projectkey workflowname"
  obtain res d1 where x: "db_Select ?c (count_of projectkey workflowname) d = (res, d1)"
    by (cases "db_Select ?c (count_of projectkey workflowname) d")
  show "if count_of projectkey workflowname d = 0
       then runs = [] \<and> off = 0 \<and> lim = 0 \<and> cnt = 0 \<and>
            calls d' = calls d @ [SelectInt_count projectkey workflowname]
       else off = offset \<and> lim = limit \<and> cnt = count_of projectkey workflowname d"
  proof (cases res)
    case (Inl errc)
    with a x show ?thesis by (simp add: LoadRuns_def)
  next
    case (Inr n)
    with x have n: "n = count_of projectkey workflowname d"
      by (simp add: db_Select_count)
    show ?thesis
    proof (cases "n = 0")
      case True
      with a x Inr n db_Select_calls[OF x] show ?thesis
        by (auto simp: LoadRuns_def)
    next
      case False
      with a x Inr n show ?thesis
        by (auto simp: LoadRuns_def split: prod.splits sum.splits)
    qed
  qed
next
  assume z: "count_of projectkey workflowname d = 0 \<and> fst (stmt d) = None"
  let ?c = "SelectInt_count projectkey workflowname"
  obtain d1 where s: "stmt (logcall ?c d) = (None, d1)"
    using z by (cases "faults d") (auto simp: stmt_def logcall_def)
  then have x: "db_Select ?c (count_of projectkey workflowname) d =
      (Inr (count_of projectkey workflowname d1), d1)"
    by (simp add: db_Select_def)
  from db_Select_count[OF x] z have "count_of projectkey workflowname d1 = 0"
    by simp
  with x show "fst (LoadRuns projectkey workflowname offset limit d) = Inr ([], 0, 0, 0)"
    by (simp add: LoadRuns_def)
qed

text \<open>The unfolding rules for the listing functions.\<close>

lemmas load_eval = LoadRuns_def db_Select_page_def page_of_def count_of_def runs_of_workflow_def
  loadRunTags_def tags_of_def Run_of_row_def

theorem LoadRuns_result_witness:
  "LoadRuns ''KEY'' ''wf'' 0 10 db0 =
     (Inr ([run1], 0, 10, 1), snd (LoadRuns ''KEY'' ''wf'' 0 10 db0)) \<and>
   count_of ''KEY'' ''wf'' db0 = 1 \<and>
   count_of ''KEY'' ''none'' db0 = 0 \<and> fst (stmt db0) = None \<and>
   fst (LoadRuns ''KEY'' ''none'' 5 10 db0) = Inr ([], 0, 0, 0)"
proof -
  let ?l = "LoadRuns ''KEY'' ''wf'' 0 10 db0"
  have "fst ?l = Inr ([run1], 0, 10, 1)"
    by (simp add: load_eval db_eval ex_eval)
  then have l: "?l = (Inr ([run1], 0, 10, 1), snd ?l)"
    by (metis prod.collapse)
  have c: "count_of ''KEY'' ''wf'' db0 = 1" "count_of ''KEY'' ''none'' db0 = 0"
    "fst (stmt db0) = None"
    by (simp_all add: count_of_def runs_of_workflow_def stmt_def ex_eval)
  from LoadRuns_result[of "''KEY''" "''wf''" 0 10 db0 "[run1]" 0 10 1 "snd ?l"]
    LoadRuns_result[of "''KEY''" "''none''" 5 10 db0] l c
  show ?thesis by simp
qed

text \<open>
  With no matching run, a call with offset 5 and limit 10 succeeds and returns offset 0 and
  limit 0, not the values passed in.
\<close>

theorem LoadRuns_zero_count_counterexample:
  "fst (LoadRuns ''KEY'' ''none'' 5 10 db0) = Inr ([], 0, 0, 0)"
  by (simp add: load_eval db_eval ex_eval)

subsection \<open>What a successful load went through\<close>

lemma stmt_held:
  "stmt d = (e, d') \<Longrightarrow> held d' = held d \<and> locked d' = locked d"
  by (auto simp: stmt_def split: list.splits)

lemma set_run_query: "set (run_query q d) \<subseteq> set (workflow_run d)"
proof (cases q)
  case (Q_LoadLastRun k n)
  have "set (take 1 (sort_key (\<lambda>r. - r_num r) (runs_of_workflow k n d)))
          \<subseteq> set (runs_of_workflow k n d)"
    using set_take_subset[of 1 "sort_key (\<lambda>r. - r_num r) (runs_of_workflow k n d)"] by simp
  with Q_LoadLastRun show ?thesis
    by (auto simp: runs_of_workflow_def)
qed (auto simp: runs_of_workflow_def)

lemma PostGet_rows_length:
  "PostGet_rows c rs d = (Inr rs', d') \<Longrightarrow> length rs' = length rs"
  by (induction rs arbitrary: d rs') (auto split: prod.splits option.splits sum.splits)

lemma PostGet_rows_single:
  assumes "PostGet_rows c rs d = (Inr [r], d')"
  shows "\<exists>r0. rs = [r0] \<and> PostGet c r0 d = (None, r, d')"
proof -
  from PostGet_rows_length[OF assms] obtain r0 where rs: "rs = [r0]"
    by (cases rs) auto
  with assms show ?thesis
    by (auto split: prod.splits option.splits)
qed

lemma one_row_Inr: "one_row rows = Inr r \<Longrightarrow> rows = [r]"
  by (auto simp: one_row_def split: list.splits)

lemma db_SelectOne_run_Inr:
  assumes "db_SelectOne_run c q d = (Inr r, d1)"
  shows "\<exists>row dA d2.
           stmt (logcall (SelectOne_run q) d) = (None, dA) \<and> run_query q dA = [row] \<and>
           (if for_update q then lock_rows [r_id row] dA = (None, d2) else d2 = dA) \<and>
           PostGet c (Run_of_row row) d2 = (None, r, d1)"
proof -
  obtain e dA where s: "stmt (logcall (SelectOne_run q) d) = (e, dA)"
    by (cases "stmt (logcall (SelectOne_run q) d)")
  with assms have e: "e = None"
    by (cases e) (simp_all add: db_SelectOne_run_def)
  let ?rows = "run_query q dA"
  obtain e2 d2 where l: "(if for_update q then lock_rows (map r_id ?rows) dA else (None, dA)) = (e2, d2)"
    by (cases "if for_update q then lock_rows (map r_id ?rows) dA else (None, dA)")
  with assms s e have e2: "e2 = None"
    by (cases e2) (simp_all add: db_SelectOne_run_def Let_def)
  obtain res d3 where p: "PostGet_rows c (map Run_of_row ?rows) d2 = (res, d3)"
    by (cases "PostGet_rows c (map Run_of_row ?rows) d2")
  with assms s e l e2 obtain rs where res: "res = Inr rs" and o: "one_row rs = Inr r" and d3: "d3 = d1"
    by (cases res) (simp_all add: db_SelectOne_run_def Let_def)
  from o have rs: "rs = [r]" by (rule one_row_Inr)
  from PostGet_rows_single[of c "map Run_of_row ?rows" d2 r d1] p res rs d3
  obtain r0 where r0: "map Run_of_row ?rows = [r0]" and pg: "PostGet c r0 d2 = (None, r, d1)"
    by auto
  then obtain row where row: "?rows = [row]" and "r0 = Run_of_row row"
    by (cases ?rows) auto
  with s e l e2 pg show ?thesis
    by (auto split: if_splits)
qed

lemma PostGet_None:
  assumes "PostGet c r0 d = (None, r, d1)"
  shows "\<exists>W I. db_SelectOne_blobs (ID r0) d = (Inr (W, I), d1) \<and>
           r = r0\<lparr>Workflow := Workflow r, Infos := Infos r\<rparr> \<and>
           (case W of None \<Rightarrow> Workflow r = Workflow r0
                    | Some s \<Rightarrow> unmarshalWorkflow c s = Inr (Workflow r)) \<and>
           (case I of None \<Rightarrow> Infos r = Infos r0
                    | Some s \<Rightarrow> unmarshalInfos c s = Inr (Infos r))"
  using assms
  by (auto simp: PostGet_def split: prod.splits sum.splits option.splits)

lemma db_SelectOne_blobs_Inr:
  assumes "db_SelectOne_blobs rid d = (Inr b, d1)"
  shows "stmt (logcall (SelectOne_blobs rid) d) = (None, d1) \<and> blobs_of rid d1 = [b]"
  using assms
  by (auto simp: db_SelectOne_blobs_def elim!: db_Select_cases dest: one_row_Inr
           split: prod.splits sum.splits)

lemma collect_node_runs_fields:
  "collect_node_runs c ns wr d = (Inr wr', d') \<Longrightarrow>
     ID wr' = ID wr \<and> Workflow wr' = Workflow wr \<and> Infos wr' = Infos wr"
  by (induction ns arbitrary: wr d) (auto split: prod.splits sum.splits)

lemma loadRun_Inr:
  assumes "loadRun c q d = (Inr wr, d')"
  obtains r d1 res d2 ns wr1 d3 tags where
    "db_SelectOne_run c q d = (Inr r, d1)"
    "db_Select (Select_node_runs (ID r)) (node_runs_of (ID r)) d1 = (res, d2)"
    "collect_node_runs c ns r d2 = (Inr wr1, d3)"
    "loadTagsByRunID (ID r) d3 = (Inr tags, d')"
    "wr = (sort_node_runs wr1)\<lparr>Tags := tags\<rparr>"
    "ID wr1 = ID r" "Workflow wr1 = Workflow r" "Infos wr1 = Infos r"
    "ns = (case res of Inl err \<Rightarrow> [] | Inr rows \<Rightarrow> rows)"
    "res = Inr ns \<or> res = Inl ErrNoRows"
proof -
  obtain x d1 where a: "db_SelectOne_run c q d = (x, d1)"
    by (cases "db_SelectOne_run c q d")
  from assms a obtain r where x: "x = Inr r"
    by (cases x) (auto simp: loadRun_def split: if_splits)
  obtain res d2 where b: "db_Select (Select_node_runs (ID r)) (node_runs_of (ID r)) d1 = (res, d2)"
    by (cases "db_Select (Select_node_runs (ID r)) (node_runs_of (ID r)) d1")
  define ns where "ns = (case res of Inl err \<Rightarrow> [] | Inr rows \<Rightarrow> rows)"
  let ?sel = "case res of
       Inl err \<Rightarrow>
         if err \<noteq> ErrNoRows
         then Inl (WrapError (Some err) ''loadRun> Unable to load workflow nodes run'')
         else Inr []
     | Inr rows \<Rightarrow> Inr rows"
  have l: "loadRun c q d =
      (case ?sel of
         Inl e \<Rightarrow> (Inl e, d2)
       | Inr dbNodeRuns \<Rightarrow>
           (case collect_node_runs c dbNodeRuns r d2 of
              (Inl e, d3) \<Rightarrow> (Inl e, d3)
            | (Inr wr1, d3) \<Rightarrow>
                let wr2 = sort_node_runs wr1 in
                (case loadTagsByRunID (ID wr2) d3 of
                   (Inl errT, d4) \<Rightarrow>
                     (Inl (WrapError (Some errT) ''loadRun> Error loading tags for run %d''), d4)
                 | (Inr tags, d4) \<Rightarrow> (Inr (wr2\<lparr>Tags := tags\<rparr>), d4))))"
    by (simp add: loadRun_def a x b)
  from assms have sel: "?sel = Inr ns"
    unfolding l ns_def by (cases res) (auto split: if_splits)
  obtain y d3 where cc: "collect_node_runs c ns r d2 = (y, d3)"
    by (cases "collect_node_runs c ns r d2")
  from assms obtain wr1 where y: "y = Inr wr1"
    unfolding l sel using cc by (cases y) auto
  from collect_node_runs_fields[of c ns r d2 wr1 d3] cc y
  have f: "ID wr1 = ID r" "Workflow wr1 = Workflow r" "Infos wr1 = Infos r"
    by simp_all
  obtain z d4 where t: "loadTagsByRunID (ID r) d3 = (z, d4)"
    by (cases "loadTagsByRunID (ID r) d3")
  have i: "ID (sort_node_runs wr1) = ID r"
    using f by (simp add: sort_node_runs_def)
  from assms obtain tags where z: "z = Inr tags" and w: "wr = (sort_node_runs wr1)\<lparr>Tags := tags\<rparr>"
    and d4: "d4 = d'"
    unfolding l sel using cc y t i by (cases z) (auto simp: Let_def)
  from sel have e: "res = Inr ns \<or> res = Inl ErrNoRows"
    by (cases res) (auto split: if_splits)
  from that[OF _ b _ _ w f ns_def e] a x cc y t z d4 show thesis
    by simp
qed

lemma lock_rows_tables:
  "lock_rows ids d = (e, d') \<Longrightarrow> workflow_run d' = workflow_run d \<and> faults d' = faults d \<and>
     calls d' = calls d \<and> locked d' = locked d \<and> workflow_node_run d' = workflow_node_run d \<and>
     workflow_run_tag d' = workflow_run_tag d"
  by (auto simp: lock_rows_def split: if_splits)

lemma loadRun_blobs:
  assumes "loadRun c q d = (Inr wr, d')"
  shows "\<exists>row\<in>set (workflow_run d). r_id row = ID wr \<and>
           (case r_workflow row of
              None \<Rightarrow> Workflow wr = Workflow_zero
            | Some s \<Rightarrow> unmarshalWorkflow c s = Inr (Workflow wr)) \<and>
           (case r_infos row of
              None \<Rightarrow> Infos wr = []
            | Some s \<Rightarrow> unmarshalInfos c s = Inr (Infos wr))"
proof -
  from assms obtain r d1 where so: "db_SelectOne_run c q d = (Inr r, d1)"
    and f: "ID wr = ID r" "Workflow wr = Workflow r" "Infos wr = Infos r"
    by (rule loadRun_Inr) (simp add: sort_node_runs_def)
  from db_SelectOne_run_Inr[OF so] obtain row dA d2 where
    s: "stmt (logcall (SelectOne_run q) d) = (None, dA)" and rq: "run_query q dA = [row]"
    and lk: "if for_update q then lock_rows [r_id row] dA = (None, d2) else d2 = dA"
    and pg: "PostGet c (Run_of_row row) d2 = (None, r, d1)"
    by blast
  from stmt_tables[OF s] have tA: "workflow_run dA = workflow_run d"
    by (simp add: logcall_def)
  from lk have t2: "workflow_run d2 = workflow_run dA"
    by (auto dest: lock_rows_tables split: if_splits)
  from set_run_query[of q dA] rq tA have row: "row \<in> set (workflow_run d)"
    by simp
  from PostGet_None[OF pg] obtain W I where
    b: "db_SelectOne_blobs (ID (Run_of_row row)) d2 = (Inr (W, I), d1)"
    and r: "r = (Run_of_row row)\<lparr>Workflow := Workflow r, Infos := Infos r\<rparr>"
    and w: "case W of None \<Rightarrow> Workflow r = Workflow (Run_of_row row)
                   | Some s \<Rightarrow> unmarshalWorkflow c s = Inr (Workflow r)"
    and i: "case I of None \<Rightarrow> Infos r = Infos (Run_of_row row)
                   | Some s \<Rightarrow> unmarshalInfos c s = Inr (Infos r)"
    by blast
  have id: "ID r = r_id row"
    by (subst r) (simp add: Run_of_row_def)
  have z: "Workflow (Run_of_row row) = Workflow_zero" "Infos (Run_of_row row) = []"
    "ID (Run_of_row row) = r_id row"
    by (simp_all add: Run_of_row_def Run_zero_def)
  from db_SelectOne_blobs_Inr[OF b] z(3)
  have s1: "stmt (logcall (SelectOne_blobs (r_id row)) d2) = (None, d1)"
    and bl: "blobs_of (r_id row) d1 = [(W, I)]"
    by simp_all
  from stmt_tables[OF s1] t2 tA have "workflow_run d1 = workflow_run d"
    by (simp add: logcall_def)
  with row have "(r_workflow row, r_infos row) \<in> set (blobs_of (r_id row) d1)"
    by (auto simp: blobs_of_def)
  with bl have "W = r_workflow row" "I = r_infos row"
    by simp_all
  with w i z f id row show ?thesis
    by (intro bexI[of _ row]) (auto split: option.splits)
qed

subsection \<open>C3: the node runs of a loaded run are in descending order of sub-number\<close>

lemma mset_insert_back: "mset (insert_back lt x ps) = add_mset x (mset ps)"
  by (induction ps) auto

lemma set_insert_back: "set (insert_back lt x ps) = insert x (set ps)"
  by (induction ps) auto

lemma sorted_insert_back:
  fixes key :: "'a \<Rightarrow> int"
  assumes "sorted_wrt (\<lambda>a b. key a \<le> key b) ps"
  shows "sorted_wrt (\<lambda>a b. key a \<le> key b) (insert_back (\<lambda>a b. key a > key b) x ps)"
  using assms by (induction ps) (auto simp: set_insert_back)

lemma sorted_foldl_insert_back:
  fixes key :: "'a \<Rightarrow> int"
  assumes "sorted_wrt (\<lambda>a b. key a \<le> key b) acc"
  shows "sorted_wrt (\<lambda>a b. key a \<le> key b)
           (foldl (\<lambda>acc x. insert_back (\<lambda>a b. key a > key b) x acc) acc xs)"
  using assms by (induction xs arbitrary: acc) (simp_all add: sorted_insert_back)

lemma mset_foldl_insert_back:
  "mset (foldl (\<lambda>acc x. insert_back lt x acc) acc xs) = mset acc + mset xs"
  by (induction xs arbitrary: acc) (simp_all add: mset_insert_back)

lemma sort_Slice_descending:
  fixes key :: "'a \<Rightarrow> int"
  shows "sorted_wrt (\<lambda>a b. key a \<ge> key b) (sort_Slice (\<lambda>a b. key a > key b) xs)"
  using sorted_foldl_insert_back[of key "[]" xs]
  by (simp add: sort_Slice_def sorted_wrt_rev)

lemma mset_sort_Slice: "mset (sort_Slice lt xs) = mset xs"
  by (simp add: sort_Slice_def mset_foldl_insert_back)


lemma loadRun_node_runs:
  assumes "loadRun c q d = (Inr wr, d')"
  shows "\<exists>wr1. WorkflowNodeRuns wr = WorkflowNodeRuns (sort_node_runs wr1)"
  using assms
  by (auto simp: loadRun_def Let_def split: prod.splits sum.splits if_splits)

lemma collect_node_runs_content:
  assumes "collect_node_runs c ns wr d = (Inr wr', d')"
  shows "\<exists>ns'. list_all2 (\<lambda>n n'. \<exists>dd dd'. NodeRun_PostGet c n dd = (Inr n', dd')) ns ns' \<and>
           (\<forall>k. slice_of (WorkflowNodeRuns wr' k) =
                  slice_of (WorkflowNodeRuns wr k) @ filter (\<lambda>n. WorkflowNodeID n = k) ns')"
  using assms
proof (induction ns arbitrary: wr d)
  case Nil
  then show ?case by simp
next
  case (Cons n ns)
  obtain x d1 where h: "NodeRun_PostGet c n d = (x, d1)"
    by (cases "NodeRun_PostGet c n d")
  with Cons.prems obtain wnr where x: "x = Inr wnr"
    by (cases x) auto
  let ?wr1 = "wr\<lparr>WorkflowNodeRuns := (WorkflowNodeRuns wr)
                  (WorkflowNodeID wnr \<mapsto>
                     (case WorkflowNodeRuns wr (WorkflowNodeID wnr) of None \<Rightarrow> [] | Some s \<Rightarrow> s)
                       @ [wnr])\<rparr>"
  from Cons.prems h x have "collect_node_runs c ns ?wr1 d1 = (Inr wr', d')"
    by simp
  from Cons.IH[OF this] obtain ns' where
    l: "list_all2 (\<lambda>n n'. \<exists>dd dd'. NodeRun_PostGet c n dd = (Inr n', dd')) ns ns'"
    and k: "\<And>k. slice_of (WorkflowNodeRuns wr' k) =
                  slice_of (WorkflowNodeRuns ?wr1 k) @ filter (\<lambda>n. WorkflowNodeID n = k) ns'"
    by blast
  have "list_all2 (\<lambda>n n'. \<exists>dd dd'. NodeRun_PostGet c n dd = (Inr n', dd')) (n # ns) (wnr # ns')"
    using l h x by auto
  moreover have "slice_of (WorkflowNodeRuns wr' k) =
        slice_of (WorkflowNodeRuns wr k) @ filter (\<lambda>n. WorkflowNodeID n = k) (wnr # ns')" for k
    unfolding k[of k] by (simp add: slice_of_def)
  ultimately show ?case by blast
qed

lemma db_SelectOne_run_fresh:
  assumes "db_SelectOne_run c q d = (Inr r, d1)"
  shows "WorkflowNodeRuns r = Map.empty \<and> workflow_node_run d1 = workflow_node_run d"
proof -
  from db_SelectOne_run_Inr[OF assms] obtain row dA d2 where
    s: "stmt (logcall (SelectOne_run q) d) = (None, dA)"
    and lk: "if for_update q then lock_rows [r_id row] dA = (None, d2) else d2 = dA"
    and pg: "PostGet c (Run_of_row row) d2 = (None, r, d1)"
    by blast
  from stmt_tables[OF s] have tA: "workflow_node_run dA = workflow_node_run d"
    by (simp add: logcall_def)
  from lk have t2: "workflow_node_run d2 = workflow_node_run dA"
    by (auto dest: lock_rows_tables split: if_splits)
  from PostGet_None[OF pg] obtain W I where
    b: "db_SelectOne_blobs (ID (Run_of_row row)) d2 = (Inr (W, I), d1)"
    and r: "r = (Run_of_row row)\<lparr>Workflow := Workflow r, Infos := Infos r\<rparr>"
    by blast
  from db_SelectOne_blobs_Inr[OF b]
  have "stmt (logcall (SelectOne_blobs (ID (Run_of_row row))) d2) = (None, d1)"
    by simp
  from stmt_tables[OF this] t2 tA have "workflow_node_run d1 = workflow_node_run d"
    by (simp add: logcall_def)
  moreover have "WorkflowNodeRuns r = Map.empty"
    by (subst r) (simp add: Run_of_row_def Run_zero_def)
  ultimately show ?thesis by simp
qed

lemma sort_Slice_Nil: "sort_Slice lt [] = []"
  by (simp add: sort_Slice_def)

lemma loadRun_node_runs_content:
  assumes "loadRun c q d = (Inr wr, d')"
  shows "\<exists>rows ns'.
           (rows = node_runs_of (ID wr) d \<or> rows = []) \<and>
           list_all2 (\<lambda>n n'. \<exists>dd dd'. NodeRun_PostGet c n dd = (Inr n', dd')) rows ns' \<and>
           (\<forall>k. mset (slice_of (WorkflowNodeRuns wr k)) =
                  mset (filter (\<lambda>n. WorkflowNodeID n = k) ns'))"
proof -
  from assms obtain r d1 res d2 ns wr1 d3 tags where
    so: "db_SelectOne_run c q d = (Inr r, d1)"
    and sel: "db_Select (Select_node_runs (ID r)) (node_runs_of (ID r)) d1 = (res, d2)"
    and col: "collect_node_runs c ns r d2 = (Inr wr1, d3)"
    and wr: "wr = (sort_node_runs wr1)\<lparr>Tags := tags\<rparr>"
    and id1: "ID wr1 = ID r"
    and ns: "ns = (case res of Inl err \<Rightarrow> [] | Inr rows \<Rightarrow> rows)"
    by (rule loadRun_Inr)
  from db_SelectOne_run_fresh[OF so]
  have e: "WorkflowNodeRuns r = Map.empty" and t1: "workflow_node_run d1 = workflow_node_run d"
    by simp_all
  have id: "ID wr = ID r"
    using wr id1 by (simp add: sort_node_runs_def)
  have rows: "ns = node_runs_of (ID wr) d \<or> ns = []"
  proof (cases res)
    case (Inl err)
    with ns show ?thesis by simp
  next
    case (Inr rows)
    with sel have "stmt (logcall (Select_node_runs (ID r)) d1) = (None, d2)"
      and "rows = node_runs_of (ID r) d2"
      by (auto elim!: db_Select_cases)
    with stmt_tables[of "logcall (Select_node_runs (ID r)) d1" None d2] t1
    have "rows = node_runs_of (ID r) d"
      by (simp add: node_runs_of_def logcall_def)
    with Inr ns id show ?thesis by simp
  qed
  from collect_node_runs_content[OF col] e obtain ns' where
    l: "list_all2 (\<lambda>n n'. \<exists>dd dd'. NodeRun_PostGet c n dd = (Inr n', dd')) ns ns'"
    and k: "\<And>k. slice_of (WorkflowNodeRuns wr1 k) = filter (\<lambda>n. WorkflowNodeID n = k) ns'"
    by (auto simp: slice_of_def)
  have "mset (slice_of (WorkflowNodeRuns wr k)) = mset (filter (\<lambda>n. WorkflowNodeID n = k) ns')" for k
  proof -
    have "slice_of (WorkflowNodeRuns wr k) =
        sort_Slice (\<lambda>a b. SubNumber a > SubNumber b) (slice_of (WorkflowNodeRuns wr1 k))"
      unfolding wr by (cases "WorkflowNodeRuns wr1 k") (simp_all add: sort_node_runs_def slice_of_def sort_Slice_Nil)
    then show ?thesis
      by (simp add: mset_sort_Slice k)
  qed
  with rows l show ?thesis by blast
qed

lemma stmt_faults:
  "stmt d = (e, d') \<Longrightarrow>
     set (faults d') \<subseteq> set (faults d) \<and> (\<forall>err. e = Some err \<longrightarrow> Some err \<in> set (faults d))"
  by (auto simp: stmt_def split: list.splits)

lemma db_SelectOne_run_faults:
  assumes "db_SelectOne_run c q d = (Inr r, d1)"
  shows "set (faults d1) \<subseteq> set (faults d)"
proof -
  from db_SelectOne_run_Inr[OF assms] obtain row dA d2 where
    s: "stmt (logcall (SelectOne_run q) d) = (None, dA)"
    and lk: "if for_update q then lock_rows [r_id row] dA = (None, d2) else d2 = dA"
    and pg: "PostGet c (Run_of_row row) d2 = (None, r, d1)"
    by blast
  from stmt_faults[OF s] have fA: "set (faults dA) \<subseteq> set (faults d)"
    by (simp add: logcall_def)
  from lk have f2: "faults d2 = faults dA"
    by (auto dest: lock_rows_tables split: if_splits)
  from PostGet_None[OF pg] obtain W I where
    b: "db_SelectOne_blobs (ID (Run_of_row row)) d2 = (Inr (W, I), d1)"
    by blast
  from db_SelectOne_blobs_Inr[OF b]
  have "stmt (logcall (SelectOne_blobs (ID (Run_of_row row))) d2) = (None, d1)"
    by simp
  from stmt_faults[OF this] have "set (faults d1) \<subseteq> set (faults d2)"
    by (simp add: logcall_def)
  with fA f2 show ?thesis by auto
qed

lemma loadRun_node_runs_stored:
  assumes "loadRun c q d = (Inr wr, d')" and "Some ErrNoRows \<notin> set (faults d)"
  shows "\<exists>ns'.
           list_all2 (\<lambda>n n'. \<exists>dd dd'. NodeRun_PostGet c n dd = (Inr n', dd'))
             (node_runs_of (ID wr) d) ns' \<and>
           (\<forall>k. mset (slice_of (WorkflowNodeRuns wr k)) =
                  mset (filter (\<lambda>n. WorkflowNodeID n = k) ns'))"
proof -
  from assms(1) obtain r d1 res d2 ns wr1 d3 tags where
    so: "db_SelectOne_run c q d = (Inr r, d1)"
    and sel: "db_Select (Select_node_runs (ID r)) (node_runs_of (ID r)) d1 = (res, d2)"
    and col: "collect_node_runs c ns r d2 = (Inr wr1, d3)"
    and wr: "wr = (sort_node_runs wr1)\<lparr>Tags := tags\<rparr>"
    and id1: "ID wr1 = ID r"
    and res: "res = Inr ns \<or> res = Inl ErrNoRows"
    by (rule loadRun_Inr)
  from db_SelectOne_run_fresh[OF so]
  have e: "WorkflowNodeRuns r = Map.empty" and t1: "workflow_node_run d1 = workflow_node_run d"
    by simp_all
  have id: "ID wr = ID r"
    using wr id1 by (simp add: sort_node_runs_def)
  have rows: "ns = node_runs_of (ID wr) d"
  proof (cases res)
    case (Inl err)
    with res have "err = ErrNoRows" by simp
    with sel Inl have "stmt (logcall (Select_node_runs (ID r)) d1) = (Some ErrNoRows, d2)"
      by (auto elim!: db_Select_cases)
    from stmt_faults[OF this] have "Some ErrNoRows \<in> set (faults d1)"
      by (simp add: logcall_def)
    with db_SelectOne_run_faults[OF so] assms(2) show ?thesis
      by auto
  next
    case (Inr rows)
    with sel have "stmt (logcall (Select_node_runs (ID r)) d1) = (None, d2)"
      and "rows = node_runs_of (ID r) d2"
      by (auto elim!: db_Select_cases)
    with stmt_tables[of "logcall (Select_node_runs (ID r)) d1" None d2] t1
    have "rows = node_runs_of (ID r) d"
      by (simp add: node_runs_of_def logcall_def)
    with Inr res id show ?thesis by simp
  qed
  from collect_node_runs_content[OF col] e obtain ns' where
    l: "list_all2 (\<lambda>n n'. \<exists>dd dd'. NodeRun_PostGet c n dd = (Inr n', dd')) ns ns'"
    and k: "\<And>k. slice_of (WorkflowNodeRuns wr1 k) = filter (\<lambda>n. WorkflowNodeID n = k) ns'"
    by (auto simp: slice_of_def)
  have "mset (slice_of (WorkflowNodeRuns wr k)) = mset (filter (\<lambda>n. WorkflowNodeID n = k) ns')" for k
  proof -
    have "slice_of (WorkflowNodeRuns wr k) =
        sort_Slice (\<lambda>a b. SubNumber a > SubNumber b) (slice_of (WorkflowNodeRuns wr1 k))"
      unfolding wr by (cases "WorkflowNodeRuns wr1 k") (simp_all add: sort_node_runs_def slice_of_def sort_Slice_Nil)
    then show ?thesis
      by (simp add: mset_sort_Slice k)
  qed
  with rows l show ?thesis by blast
qed



lemma slice_descending:
  assumes "loadRun c q d = (Inr wr, d')"
  shows "sorted_wrt (\<lambda>a b. SubNumber a \<ge> SubNumber b) (slice_of (WorkflowNodeRuns wr k))"
proof -
  from loadRun_node_runs[OF assms] obtain wr1
    where "WorkflowNodeRuns wr = WorkflowNodeRuns (sort_node_runs wr1)"
    by blast
  then show ?thesis
    by (cases "WorkflowNodeRuns wr1 k") (simp_all add: sort_node_runs_def slice_of_def sort_Slice_descending)
qed



text \<open>The unfolding rules for the loading functions.\<close>

lemmas loadRun_eval = loadRun_def LoadRun_def LoadLastRun_def LoadRunByID_def
  LoadRunByIDAndProjectKey_def loadAndLockRunByID_def db_SelectOne_run_def PostGet_def
  db_SelectOne_blobs_def blobs_of_def lock_rows_def node_runs_of_def sort_node_runs_def
  sort_Slice_def loadTagsByRunID_def returned_sub_numbers_def


subsection \<open>C4: loadAndLockRunByID and the row lock\<close>

lemma stmt_no_fault: "fst (stmt d) = None \<Longrightarrow> stmt d = (None, d\<lparr>faults := tl (faults d)\<rparr>)"
  by (cases "faults d") (auto simp: stmt_def)

lemma collect_node_runs_held:
  assumes "\<And>n dd res dd'. NodeRun_PostGet c n dd = (res, dd') \<Longrightarrow> held dd' = held dd"
  shows "collect_node_runs c ns wr d = (res, d') \<Longrightarrow> held d' = held d"
proof (induction ns arbitrary: wr d)
  case Nil
  then show ?case by simp
next
  case (Cons n ns)
  obtain x d1 where h: "NodeRun_PostGet c n d = (x, d1)"
    by (cases "NodeRun_PostGet c n d")
  from assms[OF h] have "held d1 = held d" .
  with Cons h show ?case
    by (cases x) auto
qed

lemma collect_node_runs_pure:
  assumes "\<And>n dd. \<exists>n'. NodeRun_PostGet c n dd = (Inr n', dd)"
  shows "\<exists>wr'. collect_node_runs c ns wr d = (Inr wr', d)"
proof (induction ns arbitrary: wr)
  case Nil
  then show ?case by simp
next
  case (Cons n ns)
  from assms obtain n' where "NodeRun_PostGet c n d = (Inr n', d)"
    by blast
  with Cons show ?case by simp
qed

lemma loadAndLock_conflict:
  assumes "rid \<in> set (locked d)" and "\<exists>row\<in>set (workflow_run d). r_id row = rid"
    and "fst (stmt d) = None"
  shows "loadAndLockRunByID c rid d =
           (Inl (WrapError (Some LockNotAvailable) ''loadRun> Unable to load workflow run''),
            d\<lparr>calls := calls d @ [SelectOne_run (Q_loadAndLockRunByID rid)],
              faults := tl (faults d)\<rparr>)"
proof -
  let ?q = "Q_loadAndLockRunByID rid"
  let ?d0 = "logcall (SelectOne_run ?q) d"
  let ?dA = "?d0\<lparr>faults := tl (faults ?d0)\<rparr>"
  have "fst (stmt ?d0) = None"
    using assms(3) by (cases "faults d") (simp_all add: stmt_def logcall_def)
  then have s: "stmt ?d0 = (None, ?dA)"
    by (rule stmt_no_fault)
  define rows where "rows = filter (\<lambda>r. r_id r = rid) (workflow_run d)"
  have rq: "run_query ?q ?dA = rows" and lA: "locked ?dA = locked d"
    by (simp_all add: rows_def logcall_def)
  from assms(2) obtain row rest where rows: "rows = row # rest"
    by (cases rows) (auto simp: rows_def filter_empty_conv)
  then have "row \<in> set (filter (\<lambda>r. r_id r = rid) (workflow_run d))"
    by (simp add: rows_def)
  then have "r_id row = rid"
    by simp
  with assms(1) rows have "list_ex (\<lambda>i. i \<in> set (locked d)) (map r_id rows)"
    by simp
  then have "list_ex (\<lambda>i. i \<in> set (locked ?dA)) (map r_id (run_query ?q ?dA))"
    by (simp only: rq lA)
  then have "lock_rows (map r_id (run_query ?q ?dA)) ?dA = (Some LockNotAvailable, ?dA)"
    by (simp add: lock_rows_def)
  with s have "db_SelectOne_run c ?q d = (Inl LockNotAvailable, ?dA)"
    by (simp add: db_SelectOne_run_def)
  then show ?thesis
    by (simp add: loadAndLockRunByID_def loadRun_def logcall_def)
qed

lemma loadAndLock_holds:
  assumes "loadAndLockRunByID c rid d = (Inr wr, d')"
    and hook: "\<And>n dd res dd'. NodeRun_PostGet c n dd = (res, dd') \<Longrightarrow> held dd' = held dd"
  shows "ID wr = rid \<and> rid \<notin> set (locked d) \<and> held d' = held d @ [rid]"
proof -
  let ?q = "Q_loadAndLockRunByID rid"
  from assms(1) have l: "loadRun c ?q d = (Inr wr, d')"
    by (simp add: loadAndLockRunByID_def)
  from l obtain r d1 res d2 ns wr1 d3 tags where
    so: "db_SelectOne_run c ?q d = (Inr r, d1)"
    and sel: "db_Select (Select_node_runs (ID r)) (node_runs_of (ID r)) d1 = (res, d2)"
    and col: "collect_node_runs c ns r d2 = (Inr wr1, d3)"
    and tg: "loadTagsByRunID (ID r) d3 = (Inr tags, d')"
    and wr: "wr = (sort_node_runs wr1)\<lparr>Tags := tags\<rparr>"
    and id1: "ID wr1 = ID r"
    by (rule loadRun_Inr)
  from db_SelectOne_run_Inr[OF so] obtain row dA d2' where
    s: "stmt (logcall (SelectOne_run ?q) d) = (None, dA)" and rq: "run_query ?q dA = [row]"
    and lk: "lock_rows [r_id row] dA = (None, d2')"
    and pg: "PostGet c (Run_of_row row) d2' = (None, r, d1)"
    by auto
  from rq have "row \<in> set (filter (\<lambda>r. r_id r = rid) (workflow_run dA))"
    by simp
  then have rid: "r_id row = rid"
    by simp
  from stmt_held[OF s] have hA: "held dA = held d" "locked dA = locked d"
    by (simp_all add: logcall_def)
  from lk rid hA have nl: "rid \<notin> set (locked d)" and h2: "held d2' = held d @ [rid]"
    by (auto simp: lock_rows_def split: if_splits)
  from PostGet_None[OF pg] obtain W I where
    b: "db_SelectOne_blobs (ID (Run_of_row row)) d2' = (Inr (W, I), d1)"
    and r: "r = (Run_of_row row)\<lparr>Workflow := Workflow r, Infos := Infos r\<rparr>"
    by blast
  have idr: "ID r = rid"
    by (subst r) (simp add: Run_of_row_def rid)
  from db_SelectOne_blobs_Inr[OF b] have "stmt (logcall (SelectOne_blobs (ID (Run_of_row row))) d2') = (None, d1)"
    by simp
  from stmt_held[OF this] h2 have h1: "held d1 = held d @ [rid]"
    by (simp add: logcall_def)
  from sel have "held d2 = held d1"
    by (auto elim!: db_Select_cases dest!: stmt_held simp: logcall_def)
  moreover from collect_node_runs_held[OF hook col] have "held d3 = held d2" .
  moreover from tg have "held d' = held d3"
    by (auto simp: loadTagsByRunID_def elim!: db_Select_cases dest!: stmt_held
             simp: logcall_def split: prod.splits sum.splits)
  ultimately have "held d' = held d @ [rid]"
    using h1 by simp
  moreover have "ID wr = rid"
    using wr id1 idr by (simp add: sort_node_runs_def)
  ultimately show ?thesis
    using nl by simp
qed

lemma db_Select_no_fault:
  "faults d = [] \<Longrightarrow> db_Select c rows d = (Inr (rows (logcall c d)), logcall c d)"
  by (simp add: db_Select_def stmt_def logcall_def)

lemma loadAndLock_succeeds:
  assumes f: "faults d = []"
    and hook: "\<And>n dd. \<exists>n'. NodeRun_PostGet c n dd = (Inr n', dd)"
    and u: "filter (\<lambda>row. r_id row = rid) (workflow_run d) = [row]"
    and w: "\<And>s. r_workflow row = Some s \<Longrightarrow> \<exists>wf. unmarshalWorkflow c s = Inr wf"
    and i: "\<And>s. r_infos row = Some s \<Longrightarrow> \<exists>infos. unmarshalInfos c s = Inr infos"
    and l: "rid \<notin> set (locked d)"
  shows "\<exists>wr d'. loadAndLockRunByID c rid d = (Inr wr, d')"
proof -
  let ?q = "Q_loadAndLockRunByID rid"
  define d0 where "d0 = logcall (SelectOne_run ?q) d"
  have d0: "faults d0 = []" "workflow_run d0 = workflow_run d" "locked d0 = locked d"
    by (simp_all add: d0_def logcall_def f)
  have s0: "stmt d0 = (None, d0)"
    by (simp add: stmt_def d0)
  have rq: "run_query ?q d0 = [row]"
    by (simp add: d0 u)
  from u have "row \<in> set (filter (\<lambda>row. r_id row = rid) (workflow_run d))"
    by simp
  then have rid: "r_id row = rid"
    by simp
  define d2 where "d2 = d0\<lparr>held := held d0 @ [rid]\<rparr>"
  have lk: "lock_rows (map r_id [row]) d0 = (None, d2)"
    by (simp add: lock_rows_def rid d0 l d2_def)
  have d2: "faults d2 = []" "workflow_run d2 = workflow_run d"
    by (simp_all add: d2_def d0)
  define d3 where "d3 = logcall (SelectOne_blobs rid) d2"
  have d3: "faults d3 = []" "workflow_run d3 = workflow_run d"
    by (simp_all add: d3_def logcall_def d2)
  have "blobs_of rid d3 = [(r_workflow row, r_infos row)]"
    by (simp add: blobs_of_def d3 u)
  then have bl: "db_SelectOne_blobs rid d2 = (Inr (r_workflow row, r_infos row), d3)"
    by (simp add: db_SelectOne_blobs_def db_Select_no_fault[OF d2(1)] d3_def[symmetric] one_row_def)
  have id0: "ID (Run_of_row row) = rid"
    by (simp add: Run_of_row_def rid)
  obtain r where pg: "PostGet c (Run_of_row row) d2 = (None, r, d3)"
  proof (cases "r_workflow row")
    case None
    show ?thesis
    proof (cases "r_infos row")
      case n: None
      with None bl id0 that show ?thesis by (simp add: PostGet_def)
    next
      case (Some si)
      with i obtain infos where "unmarshalInfos c si = Inr infos" by blast
      with Some None bl id0 that show ?thesis by (simp add: PostGet_def)
    qed
  next
    case sw: (Some sw)
    with w obtain wf where wf: "unmarshalWorkflow c sw = Inr wf" by blast
    show ?thesis
    proof (cases "r_infos row")
      case None
      with sw wf bl id0 that show ?thesis by (simp add: PostGet_def)
    next
      case (Some si)
      with i obtain infos where "unmarshalInfos c si = Inr infos" by blast
      with Some sw wf bl id0 that show ?thesis by (simp add: PostGet_def)
    qed
  qed
  have rq': "filter (\<lambda>r. r_id r = rid) (workflow_run d0) = [row]"
    using rq by simp
  have so: "db_SelectOne_run c ?q d = (Inr r, d3)"
    using lk
    by (simp add: db_SelectOne_run_def d0_def[symmetric] s0 rq' Let_def pg one_row_def)
  define d4 where "d4 = logcall (Select_node_runs (ID r)) d3"
  have d4: "faults d4 = []"
    by (simp add: d4_def logcall_def d3)
  have sel: "db_Select (Select_node_runs (ID r)) (node_runs_of (ID r)) d3 =
      (Inr (node_runs_of (ID r) d4), d4)"
    by (simp add: db_Select_no_fault[OF d3(1)] d4_def)
  from collect_node_runs_pure[of c "node_runs_of (ID r) d4" r d4] hook
  obtain wr1 where col: "collect_node_runs c (node_runs_of (ID r) d4) r d4 = (Inr wr1, d4)"
    by blast
  have "\<exists>tags d5. loadTagsByRunID (ID (sort_node_runs wr1)) d4 = (Inr tags, d5)"
    by (simp add: loadTagsByRunID_def db_Select_no_fault[OF d4])
  then obtain tags d5 where tg: "loadTagsByRunID (ID (sort_node_runs wr1)) d4 = (Inr tags, d5)"
    by blast
  have "loadRun c ?q d = (Inr ((sort_node_runs wr1)\<lparr>Tags := tags\<rparr>), d5)"
    by (simp add: loadRun_def so sel col tg Let_def)
  then show ?thesis
    by (simp add: loadAndLockRunByID_def)
qed

lemma collect_node_runs_columns:
  "collect_node_runs c ns wr d = (Inr wr', d') \<Longrightarrow>
     wr' = wr\<lparr>WorkflowNodeRuns := WorkflowNodeRuns wr'\<rparr>"
proof (induction ns arbitrary: wr d)
  case Nil
  then show ?case by simp
next
  case (Cons n ns)
  obtain x d1 where h: "NodeRun_PostGet c n d = (x, d1)"
    by (cases "NodeRun_PostGet c n d")
  with Cons.prems obtain wnr where x: "x = Inr wnr"
    by (cases x) auto
  let ?wr1 = "wr\<lparr>WorkflowNodeRuns := (WorkflowNodeRuns wr)
                  (WorkflowNodeID wnr \<mapsto>
                     (case WorkflowNodeRuns wr (WorkflowNodeID wnr) of None \<Rightarrow> [] | Some s \<Rightarrow> s)
                       @ [wnr])\<rparr>"
  from Cons.prems h x have "collect_node_runs c ns ?wr1 d1 = (Inr wr', d')"
    by simp
  from Cons.IH[OF this] have "wr' = ?wr1\<lparr>WorkflowNodeRuns := WorkflowNodeRuns wr'\<rparr>" .
  then show ?case by simp
qed

lemma collect_node_runs_keeps:
  assumes "\<And>n dd res dd'. NodeRun_PostGet c n dd = (res, dd') \<Longrightarrow> f dd' = f dd"
  shows "collect_node_runs c ns wr d = (res, d') \<Longrightarrow> f d' = f d"
proof (induction ns arbitrary: wr d)
  case Nil
  then show ?case by simp
next
  case (Cons n ns)
  obtain x d1 where h: "NodeRun_PostGet c n d = (x, d1)"
    by (cases "NodeRun_PostGet c n d")
  from assms[OF h] have "f d1 = f d" .
  with Cons h show ?case
    by (cases x) auto
qed

lemma loadRun_row:
  assumes "loadRun c q d = (Inr wr, d')"
  shows "\<exists>row dA.
           stmt (logcall (SelectOne_run q) d) = (None, dA) \<and> run_query q dA = [row] \<and>
           workflow_run dA = workflow_run d \<and>
           columns_of wr = Run_of_row row \<and>
           (case r_workflow row of
              None \<Rightarrow> Workflow wr = Workflow_zero
            | Some s \<Rightarrow> unmarshalWorkflow c s = Inr (Workflow wr)) \<and>
           (case r_infos row of
              None \<Rightarrow> Infos wr = []
            | Some s \<Rightarrow> unmarshalInfos c s = Inr (Infos wr))"
proof -
  from assms obtain r d1 res d2 ns wr1 d3 tags where
    so: "db_SelectOne_run c q d = (Inr r, d1)"
    and col: "collect_node_runs c ns r d2 = (Inr wr1, d3)"
    and wr: "wr = (sort_node_runs wr1)\<lparr>Tags := tags\<rparr>"
    by (rule loadRun_Inr)
  from collect_node_runs_columns[OF col] have w1: "wr1 = r\<lparr>WorkflowNodeRuns := WorkflowNodeRuns wr1\<rparr>" .
  have cw: "columns_of wr = columns_of r"
    unfolding wr by (subst w1) (simp add: columns_of_def sort_node_runs_def)
  have f: "Workflow wr = Workflow r" "Infos wr = Infos r"
    unfolding wr by (subst w1, simp add: sort_node_runs_def)+
  from db_SelectOne_run_Inr[OF so] obtain row dA d2' where
    s: "stmt (logcall (SelectOne_run q) d) = (None, dA)" and rq: "run_query q dA = [row]"
    and lk: "if for_update q then lock_rows [r_id row] dA = (None, d2') else d2' = dA"
    and pg: "PostGet c (Run_of_row row) d2' = (None, r, d1)"
    by blast
  from stmt_tables[OF s] have tA: "workflow_run dA = workflow_run d"
    by (simp add: logcall_def)
  from lk have t2: "workflow_run d2' = workflow_run dA"
    by (auto dest: lock_rows_tables split: if_splits)
  from set_run_query[of q dA] rq tA have row: "row \<in> set (workflow_run d)"
    by simp
  from PostGet_None[OF pg] obtain W I where
    b: "db_SelectOne_blobs (ID (Run_of_row row)) d2' = (Inr (W, I), d1)"
    and r: "r = (Run_of_row row)\<lparr>Workflow := Workflow r, Infos := Infos r\<rparr>"
    and w: "case W of None \<Rightarrow> Workflow r = Workflow (Run_of_row row)
                   | Some s \<Rightarrow> unmarshalWorkflow c s = Inr (Workflow r)"
    and i: "case I of None \<Rightarrow> Infos r = Infos (Run_of_row row)
                   | Some s \<Rightarrow> unmarshalInfos c s = Inr (Infos r)"
    by blast
  have cr: "columns_of r = Run_of_row row"
    by (subst r) (simp add: columns_of_def Run_of_row_def Run_zero_def)
  have z: "Workflow (Run_of_row row) = Workflow_zero" "Infos (Run_of_row row) = []"
    "ID (Run_of_row row) = r_id row"
    by (simp_all add: Run_of_row_def Run_zero_def)
  from db_SelectOne_blobs_Inr[OF b] z(3)
  have s1: "stmt (logcall (SelectOne_blobs (r_id row)) d2') = (None, d1)"
    and bl: "blobs_of (r_id row) d1 = [(W, I)]"
    by simp_all
  from stmt_tables[OF s1] t2 tA have "workflow_run d1 = workflow_run d"
    by (simp add: logcall_def)
  with row have "(r_workflow row, r_infos row) \<in> set (blobs_of (r_id row) d1)"
    by (auto simp: blobs_of_def)
  with bl have "W = r_workflow row" "I = r_infos row"
    by simp_all
  with w i z f have
    "case r_workflow row of None \<Rightarrow> Workflow wr = Workflow_zero
       | Some s \<Rightarrow> unmarshalWorkflow c s = Inr (Workflow wr)"
    "case r_infos row of None \<Rightarrow> Infos wr = []
       | Some s \<Rightarrow> unmarshalInfos c s = Inr (Infos wr)"
    by (auto split: option.splits)
  with s rq tA cw cr show ?thesis
    by (intro exI[of _ row] exI[of _ dA]) simp
qed

lemma loadRun_tags:
  assumes "loadRun c q d = (Inr wr, d')"
    and hook: "\<And>n dd res dd'. NodeRun_PostGet c n dd = (res, dd') \<Longrightarrow>
                 workflow_run_tag dd' = workflow_run_tag dd"
  shows "Tags wr = tags_of (ID wr) d"
proof -
  from assms(1) obtain r d1 res d2 ns wr1 d3 tags where
    so: "db_SelectOne_run c q d = (Inr r, d1)"
    and sel: "db_Select (Select_node_runs (ID r)) (node_runs_of (ID r)) d1 = (res, d2)"
    and col: "collect_node_runs c ns r d2 = (Inr wr1, d3)"
    and tg: "loadTagsByRunID (ID r) d3 = (Inr tags, d')"
    and wr: "wr = (sort_node_runs wr1)\<lparr>Tags := tags\<rparr>"
    and id1: "ID wr1 = ID r"
    by (rule loadRun_Inr)
  from db_SelectOne_run_Inr[OF so] obtain row dA d2' where
    s: "stmt (logcall (SelectOne_run q) d) = (None, dA)"
    and lk: "if for_update q then lock_rows [r_id row] dA = (None, d2') else d2' = dA"
    and pg: "PostGet c (Run_of_row row) d2' = (None, r, d1)"
    by blast
  from stmt_tables[OF s] have tA: "workflow_run_tag dA = workflow_run_tag d"
    by (simp add: logcall_def)
  from lk have t2: "workflow_run_tag d2' = workflow_run_tag dA"
    by (auto dest: lock_rows_tables split: if_splits)
  from PostGet_None[OF pg] obtain W I where
    b: "db_SelectOne_blobs (ID (Run_of_row row)) d2' = (Inr (W, I), d1)"
    by blast
  from db_SelectOne_blobs_Inr[OF b]
  have "stmt (logcall (SelectOne_blobs (ID (Run_of_row row))) d2') = (None, d1)"
    by simp
  from stmt_tables[OF this] t2 tA have t1: "workflow_run_tag d1 = workflow_run_tag d"
    by (simp add: logcall_def)
  from sel have "workflow_run_tag d2 = workflow_run_tag d1"
    by (auto elim!: db_Select_cases dest!: stmt_tables simp: logcall_def)
  moreover have "workflow_run_tag d3 = workflow_run_tag d2"
    by (rule collect_node_runs_keeps[where f = workflow_run_tag, OF hook col])
  ultimately have t3: "workflow_run_tag d3 = workflow_run_tag d"
    using t1 by simp
  from tg have "stmt (logcall (Select_tags (ID r)) d3) = (None, d')" "tags = tags_of (ID r) d'"
    by (auto simp: loadTagsByRunID_def elim!: db_Select_cases split: prod.splits sum.splits)
  with stmt_tables[of "logcall (Select_tags (ID r)) d3" None d'] t3
  have "tags = tags_of (ID r) d"
    by (simp add: tags_of_def logcall_def)
  moreover have "ID wr = ID r" "Tags wr = tags"
    using wr id1 by (simp_all add: sort_node_runs_def)
  ultimately show ?thesis by simp
qed

lemma loadAndLock_returns_row:
  assumes l: "loadAndLockRunByID c rid d = (Inr wr, d')"
    and hook: "\<forall>n dd res dd'. NodeRun_PostGet c n dd = (res, dd') \<longrightarrow>
                 held dd' = held dd \<and> workflow_run_tag dd' = workflow_run_tag dd"
  shows "rid \<notin> set (locked d) \<and> held d' = held d @ [rid] \<and> ID wr = rid \<and>
         (\<exists>row. filter (\<lambda>row. r_id row = rid) (workflow_run d) = [row] \<and>
                columns_of wr = Run_of_row row \<and>
                (case r_workflow row of
                   None \<Rightarrow> Workflow wr = Workflow_zero
                 | Some s \<Rightarrow> unmarshalWorkflow c s = Inr (Workflow wr)) \<and>
                (case r_infos row of
                   None \<Rightarrow> Infos wr = []
                 | Some s \<Rightarrow> unmarshalInfos c s = Inr (Infos wr))) \<and>
         Tags wr = tags_of rid d \<and>
         (\<exists>rows ns'.
            (rows = node_runs_of rid d \<or> rows = []) \<and>
            list_all2 (\<lambda>n n'. \<exists>dd dd'. NodeRun_PostGet c n dd = (Inr n', dd')) rows ns' \<and>
            (\<forall>k. sorted_wrt (\<lambda>a b. SubNumber a \<ge> SubNumber b) (slice_of (WorkflowNodeRuns wr k)) \<and>
                 mset (slice_of (WorkflowNodeRuns wr k)) =
                   mset (filter (\<lambda>n. WorkflowNodeID n = k) ns')))"
proof -
  let ?q = "Q_loadAndLockRunByID rid"
  from l have lr: "loadRun c ?q d = (Inr wr, d')"
    by (simp add: loadAndLockRunByID_def)
  have hh: "\<And>n dd res dd'. NodeRun_PostGet c n dd = (res, dd') \<Longrightarrow> held dd' = held dd"
    and ht: "\<And>n dd res dd'. NodeRun_PostGet c n dd = (res, dd') \<Longrightarrow>
               workflow_run_tag dd' = workflow_run_tag dd"
    using hook by blast+
  have 1: "ID wr = rid \<and> rid \<notin> set (locked d) \<and> held d' = held d @ [rid]"
    by (rule loadAndLock_holds[OF l]) (rule hh)
  from loadRun_row[OF lr] obtain row dA where
    rq: "run_query ?q dA = [row]" and tA: "workflow_run dA = workflow_run d"
    and cw: "columns_of wr = Run_of_row row"
    and bw: "case r_workflow row of None \<Rightarrow> Workflow wr = Workflow_zero
               | Some s \<Rightarrow> unmarshalWorkflow c s = Inr (Workflow wr)"
    and bi: "case r_infos row of None \<Rightarrow> Infos wr = []
               | Some s \<Rightarrow> unmarshalInfos c s = Inr (Infos wr)"
    by blast
  from rq tA have "filter (\<lambda>row. r_id row = rid) (workflow_run d) = [row]"
    by simp
  with cw bw bi have 2: "\<exists>row. filter (\<lambda>row. r_id row = rid) (workflow_run d) = [row] \<and>
                columns_of wr = Run_of_row row \<and>
                (case r_workflow row of
                   None \<Rightarrow> Workflow wr = Workflow_zero
                 | Some s \<Rightarrow> unmarshalWorkflow c s = Inr (Workflow wr)) \<and>
                (case r_infos row of
                   None \<Rightarrow> Infos wr = []
                 | Some s \<Rightarrow> unmarshalInfos c s = Inr (Infos wr))"
    by blast
  have "Tags wr = tags_of (ID wr) d"
    by (rule loadRun_tags[OF lr]) (rule ht)
  with 1 have 3: "Tags wr = tags_of rid d"
    by simp
  from loadRun_node_runs_content[OF lr] 1 obtain rows ns' where
    c: "rows = node_runs_of rid d \<or> rows = []"
      "list_all2 (\<lambda>n n'. \<exists>dd dd'. NodeRun_PostGet c n dd = (Inr n', dd')) rows ns'"
      "\<And>k. mset (slice_of (WorkflowNodeRuns wr k)) = mset (filter (\<lambda>n. WorkflowNodeID n = k) ns')"
    by auto
  have "sorted_wrt (\<lambda>a b. SubNumber a \<ge> SubNumber b) (slice_of (WorkflowNodeRuns wr k))" for k
    using lr by (rule slice_descending)
  with c have 4: "\<exists>rows ns'.
            (rows = node_runs_of rid d \<or> rows = []) \<and>
            list_all2 (\<lambda>n n'. \<exists>dd dd'. NodeRun_PostGet c n dd = (Inr n', dd')) rows ns' \<and>
            (\<forall>k. sorted_wrt (\<lambda>a b. SubNumber a \<ge> SubNumber b) (slice_of (WorkflowNodeRuns wr k)) \<and>
                 mset (slice_of (WorkflowNodeRuns wr k)) =
                   mset (filter (\<lambda>n. WorkflowNodeID n = k) ns'))"
    by blast
  from 1 2 3 4 show ?thesis by blast
qed

lemma loadAndLock_success_row:
  assumes f: "faults d = []"
    and hook: "\<And>n dd. \<exists>n'. NodeRun_PostGet c n dd = (Inr n', dd)"
    and u: "filter (\<lambda>row. r_id row = rid) (workflow_run d) = [row]"
    and w: "\<And>s. r_workflow row = Some s \<Longrightarrow> \<exists>wf. unmarshalWorkflow c s = Inr wf"
    and i: "\<And>s. r_infos row = Some s \<Longrightarrow> \<exists>infos. unmarshalInfos c s = Inr infos"
    and nl: "rid \<notin> set (locked d)"
  shows "\<exists>wr d'. loadAndLockRunByID c rid d = (Inr wr, d') \<and> held d' = held d @ [rid] \<and>
           ID wr = rid \<and> columns_of wr = Run_of_row row \<and>
           (case r_workflow row of
              None \<Rightarrow> Workflow wr = Workflow_zero
            | Some s \<Rightarrow> unmarshalWorkflow c s = Inr (Workflow wr)) \<and>
           (case r_infos row of
              None \<Rightarrow> Infos wr = []
            | Some s \<Rightarrow> unmarshalInfos c s = Inr (Infos wr)) \<and>
           Tags wr = tags_of rid d \<and>
           (\<exists>ns'. list_all2 (\<lambda>n n'. \<exists>dd dd'. NodeRun_PostGet c n dd = (Inr n', dd'))
                    (node_runs_of rid d) ns' \<and>
                  (\<forall>k. sorted_wrt (\<lambda>a b. SubNumber a \<ge> SubNumber b)
                         (slice_of (WorkflowNodeRuns wr k)) \<and>
                       mset (slice_of (WorkflowNodeRuns wr k)) =
                         mset (filter (\<lambda>n. WorkflowNodeID n = k) ns')))"
proof -
  from loadAndLock_succeeds[OF f hook u w i nl] obtain wr d'
    where l: "loadAndLockRunByID c rid d = (Inr wr, d')"
    by blast
  then have lr: "loadRun c (Q_loadAndLockRunByID rid) d = (Inr wr, d')"
    by (simp add: loadAndLockRunByID_def)
  have hk: "\<forall>n dd res dd'. NodeRun_PostGet c n dd = (res, dd') \<longrightarrow>
              held dd' = held dd \<and> workflow_run_tag dd' = workflow_run_tag dd"
  proof (intro allI impI)
    fix n dd res dd'
    assume a: "NodeRun_PostGet c n dd = (res, dd')"
    from hook obtain n' where "NodeRun_PostGet c n dd = (Inr n', dd)" by blast
    with a show "held dd' = held dd \<and> workflow_run_tag dd' = workflow_run_tag dd" by simp
  qed
  have r: "rid \<notin> set (locked d) \<and> held d' = held d @ [rid] \<and> ID wr = rid \<and>
         (\<exists>row. filter (\<lambda>row. r_id row = rid) (workflow_run d) = [row] \<and>
                columns_of wr = Run_of_row row \<and>
                (case r_workflow row of
                   None \<Rightarrow> Workflow wr = Workflow_zero
                 | Some s \<Rightarrow> unmarshalWorkflow c s = Inr (Workflow wr)) \<and>
                (case r_infos row of
                   None \<Rightarrow> Infos wr = []
                 | Some s \<Rightarrow> unmarshalInfos c s = Inr (Infos wr))) \<and>
         Tags wr = tags_of rid d"
    using loadAndLock_returns_row[OF l hk] by blast
  with u have row: "columns_of wr = Run_of_row row"
    "case r_workflow row of None \<Rightarrow> Workflow wr = Workflow_zero
       | Some s \<Rightarrow> unmarshalWorkflow c s = Inr (Workflow wr)"
    "case r_infos row of None \<Rightarrow> Infos wr = []
       | Some s \<Rightarrow> unmarshalInfos c s = Inr (Infos wr)"
    by auto
  have "Some ErrNoRows \<notin> set (faults d)"
    by (simp add: f)
  from loadRun_node_runs_stored[OF lr this] r obtain ns' where
    n: "list_all2 (\<lambda>n n'. \<exists>dd dd'. NodeRun_PostGet c n dd = (Inr n', dd')) (node_runs_of rid d) ns'"
      "\<And>k. mset (slice_of (WorkflowNodeRuns wr k)) = mset (filter (\<lambda>n. WorkflowNodeID n = k) ns')"
    by auto
  have "sorted_wrt (\<lambda>a b. SubNumber a \<ge> SubNumber b) (slice_of (WorkflowNodeRuns wr k))" for k
    using lr by (rule slice_descending)
  with n have 4: "\<exists>ns'. list_all2 (\<lambda>n n'. \<exists>dd dd'. NodeRun_PostGet c n dd = (Inr n', dd'))
                    (node_runs_of rid d) ns' \<and>
                  (\<forall>k. sorted_wrt (\<lambda>a b. SubNumber a \<ge> SubNumber b)
                         (slice_of (WorkflowNodeRuns wr k)) \<and>
                       mset (slice_of (WorkflowNodeRuns wr k)) =
                         mset (filter (\<lambda>n. WorkflowNodeID n = k) ns'))"
    by blast
  from l r row 4 show ?thesis
    by (intro exI[of _ wr] exI[of _ d']) simp
qed

text \<open>
  \<^bold>\<open>C4.\<close> \<^verbatim>\<open>loadAndLockRunByID\<close> selects the row \<^verbatim>\<open>for update nowait\<close>; the row lock is the
  one the spec describes, and time is not modelled. (a) When another transaction holds
  the lock of the run's row, the call fails with the wrapped \<open>LockNotAvailable\<close> error of
  that one statement: it issues no further statement, takes no lock and leaves every
  table as it was. (b) When the lock is free (and no statement fails, the row is there
  once, its blobs decode and the node-run hook succeeds) the call returns the run of that
  row and the transaction holds the lock of the row: the columns of the run are those of
  the row, its workflow and infos are the decoded blobs, its tags are the stored tags of
  the run, and the node runs of each node are what the hook made of the stored node runs
  of the run, in descending order of sub-number. (c) Whenever the call returns a run, the
  lock was free and is now held, the run has the id asked for, exactly one row has that
  id, and the run returned is the run of that row in the same sense.
\<close>

theorem loadAndLockRunByID_nowait:
  "(rid \<in> set (locked d) \<and> (\<exists>row\<in>set (workflow_run d). r_id row = rid) \<and> fst (stmt d) = None \<longrightarrow>
      loadAndLockRunByID c rid d =
        (Inl (WrapError (Some LockNotAvailable) ''loadRun> Unable to load workflow run''),
         d\<lparr>calls := calls d @ [SelectOne_run (Q_loadAndLockRunByID rid)],
           faults := tl (faults d)\<rparr>)) \<and>
   (rid \<notin> set (locked d) \<and> faults d = [] \<and>
    filter (\<lambda>row. r_id row = rid) (workflow_run d) = [row] \<and>
    (\<forall>s. r_workflow row = Some s \<longrightarrow> (\<exists>wf. unmarshalWorkflow c s = Inr wf)) \<and>
    (\<forall>s. r_infos row = Some s \<longrightarrow> (\<exists>infos. unmarshalInfos c s = Inr infos)) \<and>
    (\<forall>n dd. \<exists>n'. NodeRun_PostGet c n dd = (Inr n', dd)) \<longrightarrow>
      (\<exists>wr1 d1. loadAndLockRunByID c rid d = (Inr wr1, d1) \<and> held d1 = held d @ [rid] \<and>
         ID wr1 = rid \<and> columns_of wr1 = Run_of_row row \<and>
         (case r_workflow row of
            None \<Rightarrow> Workflow wr1 = Workflow_zero
          | Some s \<Rightarrow> unmarshalWorkflow c s = Inr (Workflow wr1)) \<and>
         (case r_infos row of
            None \<Rightarrow> Infos wr1 = []
          | Some s \<Rightarrow> unmarshalInfos c s = Inr (Infos wr1)) \<and>
         Tags wr1 = tags_of rid d \<and>
         (\<exists>ns'. list_all2 (\<lambda>n n'. \<exists>dd dd'. NodeRun_PostGet c n dd = (Inr n', dd'))
                  (node_runs_of rid d) ns' \<and>
                (\<forall>k. sorted_wrt (\<lambda>a b. SubNumber a \<ge> SubNumber b)
                       (slice_of (WorkflowNodeRuns wr1 k)) \<and>
                     mset (slice_of (WorkflowNodeRuns wr1 k)) =
                       mset (filter (\<lambda>n. WorkflowNodeID n = k) ns'))))) \<and>
   (loadAndLockRunByID c rid d = (Inr wr, d') \<and>
    (\<forall>n dd res dd'. NodeRun_PostGet c n dd = (res, dd') \<longrightarrow>
       held dd' = held dd \<and> workflow_run_tag dd' = workflow_run_tag dd) \<longrightarrow>
      rid \<notin> set (locked d) \<and> held d' = held d @ [rid] \<and> ID wr = rid \<and>
      (\<exists>row. filter (\<lambda>row. r_id row = rid) (workflow_run d) = [row] \<and>
             columns_of wr = Run_of_row row \<and>
             (case r_workflow row of
                None \<Rightarrow> Workflow wr = Workflow_zero
              | Some s \<Rightarrow> unmarshalWorkflow c s = Inr (Workflow wr)) \<and>
             (case r_infos row of
                None \<Rightarrow> Infos wr = []
              | Some s \<Rightarrow> unmarshalInfos c s = Inr (Infos wr))) \<and>
      Tags wr = tags_of rid d \<and>
      (\<exists>rows ns'.
         (rows = node_runs_of rid d \<or> rows = []) \<and>
         list_all2 (\<lambda>n n'. \<exists>dd dd'. NodeRun_PostGet c n dd = (Inr n', dd')) rows ns' \<and>
         (\<forall>k. sorted_wrt (\<lambda>a b. SubNumber a \<ge> SubNumber b) (slice_of (WorkflowNodeRuns wr k)) \<and>
              mset (slice_of (WorkflowNodeRuns wr k)) =
                mset (filter (\<lambda>n. WorkflowNodeID n = k) ns'))))"
proof (rule conjI[OF _ conjI])
  show "rid \<in> set (locked d) \<and> (\<exists>row\<in>set (workflow_run d). r_id row = rid) \<and> fst (stmt d) = None \<longrightarrow>
      loadAndLockRunByID c rid d =
        (Inl (WrapError (Some LockNotAvailable) ''loadRun> Unable to load workflow run''),
         d\<lparr>calls := calls d @ [SelectOne_run (Q_loadAndLockRunByID rid)],
           faults := tl (faults d)\<rparr>)"
    using loadAndLock_conflict[of rid d c] by blast
next
  show "rid \<notin> set (locked d) \<and> faults d = [] \<and>
    filter (\<lambda>row. r_id row = rid) (workflow_run d) = [row] \<and>
    (\<forall>s. r_workflow row = Some s \<longrightarrow> (\<exists>wf. unmarshalWorkflow c s = Inr wf)) \<and>
    (\<forall>s. r_infos row = Some s \<longrightarrow> (\<exists>infos. unmarshalInfos c s = Inr infos)) \<and>
    (\<forall>n dd. \<exists>n'. NodeRun_PostGet c n dd = (Inr n', dd)) \<longrightarrow>
      (\<exists>wr1 d1. loadAndLockRunByID c rid d = (Inr wr1, d1) \<and> held d1 = held d @ [rid] \<and>
         ID wr1 = rid \<and> columns_of wr1 = Run_of_row row \<and>
         (case r_workflow row of
            None \<Rightarrow> Workflow wr1 = Workflow_zero
          | Some s \<Rightarrow> unmarshalWorkflow c s = Inr (Workflow wr1)) \<and>
         (case r_infos row of
            None \<Rightarrow> Infos wr1 = []
          | Some s \<Rightarrow> unmarshalInfos c s = Inr (Infos wr1)) \<and>
         Tags wr1 = tags_of rid d \<and>
         (\<exists>ns'. list_all2 (\<lambda>n n'. \<exists>dd dd'. NodeRun_PostGet c n dd = (Inr n', dd'))
                  (node_runs_of rid d) ns' \<and>
                (\<forall>k. sorted_wrt (\<lambda>a b. SubNumber a \<ge> SubNumber b)
                       (slice_of (WorkflowNodeRuns wr1 k)) \<and>
                     mset (slice_of (WorkflowNodeRuns wr1 k)) =
                       mset (filter (\<lambda>n. WorkflowNodeID n = k) ns'))))"
  proof
    assume a: "rid \<notin> set (locked d) \<and> faults d = [] \<and>
      filter (\<lambda>row. r_id row = rid) (workflow_run d) = [row] \<and>
      (\<forall>s. r_workflow row = Some s \<longrightarrow> (\<exists>wf. unmarshalWorkflow c s = Inr wf)) \<and>
      (\<forall>s. r_infos row = Some s \<longrightarrow> (\<exists>infos. unmarshalInfos c s = Inr infos)) \<and>
      (\<forall>n dd. \<exists>n'. NodeRun_PostGet c n dd = (Inr n', dd))"
    then have f: "faults d = []"
      and hook: "\<And>n dd. \<exists>n'. NodeRun_PostGet c n dd = (Inr n', dd)"
      and u: "filter (\<lambda>row. r_id row = rid) (workflow_run d) = [row]"
      and w: "\<And>s. r_workflow row = Some s \<Longrightarrow> \<exists>wf. unmarshalWorkflow c s = Inr wf"
      and i: "\<And>s. r_infos row = Some s \<Longrightarrow> \<exists>infos. unmarshalInfos c s = Inr infos"
      and nl: "rid \<notin> set (locked d)"
      by blast+
    show "\<exists>wr1 d1. loadAndLockRunByID c rid d = (Inr wr1, d1) \<and> held d1 = held d @ [rid] \<and>
         ID wr1 = rid \<and> columns_of wr1 = Run_of_row row \<and>
         (case r_workflow row of
            None \<Rightarrow> Workflow wr1 = Workflow_zero
          | Some s \<Rightarrow> unmarshalWorkflow c s = Inr (Workflow wr1)) \<and>
         (case r_infos row of
            None \<Rightarrow> Infos wr1 = []
          | Some s \<Rightarrow> unmarshalInfos c s = Inr (Infos wr1)) \<and>
         Tags wr1 = tags_of rid d \<and>
         (\<exists>ns'. list_all2 (\<lambda>n n'. \<exists>dd dd'. NodeRun_PostGet c n dd = (Inr n', dd'))
                  (node_runs_of rid d) ns' \<and>
                (\<forall>k. sorted_wrt (\<lambda>a b. SubNumber a \<ge> SubNumber b)
                       (slice_of (WorkflowNodeRuns wr1 k)) \<and>
                     mset (slice_of (WorkflowNodeRuns wr1 k)) =
                       mset (filter (\<lambda>n. WorkflowNodeID n = k) ns')))"
      by (rule loadAndLock_success_row[OF f _ u _ _ nl]) (rule hook, erule w, erule i)
  qed
next
  show "loadAndLockRunByID c rid d = (Inr wr, d') \<and>
    (\<forall>n dd res dd'. NodeRun_PostGet c n dd = (res, dd') \<longrightarrow>
       held dd' = held dd \<and> workflow_run_tag dd' = workflow_run_tag dd) \<longrightarrow>
      rid \<notin> set (locked d) \<and> held d' = held d @ [rid] \<and> ID wr = rid \<and>
      (\<exists>row. filter (\<lambda>row. r_id row = rid) (workflow_run d) = [row] \<and>
             columns_of wr = Run_of_row row \<and>
             (case r_workflow row of
                None \<Rightarrow> Workflow wr = Workflow_zero
              | Some s \<Rightarrow> unmarshalWorkflow c s = Inr (Workflow wr)) \<and>
             (case r_infos row of
                None \<Rightarrow> Infos wr = []
              | Some s \<Rightarrow> unmarshalInfos c s = Inr (Infos wr))) \<and>
      Tags wr = tags_of rid d \<and>
      (\<exists>rows ns'.
         (rows = node_runs_of rid d \<or> rows = []) \<and>
         list_all2 (\<lambda>n n'. \<exists>dd dd'. NodeRun_PostGet c n dd = (Inr n', dd')) rows ns' \<and>
         (\<forall>k. sorted_wrt (\<lambda>a b. SubNumber a \<ge> SubNumber b) (slice_of (WorkflowNodeRuns wr k)) \<and>
              mset (slice_of (WorkflowNodeRuns wr k)) =
                mset (filter (\<lambda>n. WorkflowNodeID n = k) ns')))"
    by (rule impI, erule conjE, rule loadAndLock_returns_row)
qed

theorem loadAndLockRunByID_nowait_witness:
  "loadAndLockRunByID env0 1 db_locked =
     (Inl (WrapError (Some LockNotAvailable) ''loadRun> Unable to load workflow run''),
      db_locked\<lparr>calls := [SelectOne_run (Q_loadAndLockRunByID 1)], faults := []\<rparr>) \<and>
   (\<exists>wr d'. loadAndLockRunByID env0 1 db_full = (Inr wr, d') \<and> held d' = [1] \<and>
             locked db_full = [] \<and> ID wr = 1 \<and> Number wr = 1 \<and> Status wr = ''Building'' \<and>
             Workflow wr = Workflow_zero \<and> Infos wr = [] \<and>
             Tags wr = [\<lparr>WorkflowRunID = 1, Tag = ''branch'', Value = ''main''\<rparr>] \<and>
             map SubNumber (slice_of (WorkflowNodeRuns wr 7)) = [1, 0])"
proof -
  let ?row = "row1\<lparr>r_workflow := Some ''{}'', r_infos := Some ''[]''\<rparr>"
  have k: "1 \<in> set (locked db_locked)" "\<exists>row\<in>set (workflow_run db_locked). r_id row = 1"
    "fst (stmt db_locked) = None" "calls db_locked = []" "faults db_locked = []"
    by (simp_all add: db_locked_def stmt_def ex_eval)
  have f: "1 \<notin> set (locked db_full)" "faults db_full = []"
    "filter (\<lambda>row. r_id row = 1) (workflow_run db_full) = [?row]"
    "\<forall>s. r_workflow ?row = Some s \<longrightarrow> (\<exists>wf. unmarshalWorkflow env0 s = Inr wf)"
    "\<forall>s. r_infos ?row = Some s \<longrightarrow> (\<exists>infos. unmarshalInfos env0 s = Inr infos)"
    "\<forall>n dd. \<exists>n'. NodeRun_PostGet env0 n dd = (Inr n', dd)"
    by (simp_all add: db_full_def row2_def ex_eval)
  have g: "held db_full = []" "locked db_full = []"
    "tags_of 1 db_full = [\<lparr>WorkflowRunID = 1, Tag = ''branch'', Value = ''main''\<rparr>]"
    by (simp_all add: db_full_def tags_of_def ex_eval)
  have "loadAndLockRunByID env0 1 db_locked =
     (Inl (WrapError (Some LockNotAvailable) ''loadRun> Unable to load workflow run''),
      db_locked\<lparr>calls := calls db_locked @ [SelectOne_run (Q_loadAndLockRunByID 1)],
        faults := tl (faults db_locked)\<rparr>)"
    by (rule loadAndLockRunByID_nowait[of 1 db_locked env0 row1, THEN conjunct1, rule_format])
       (simp add: k)
  then have 1: "loadAndLockRunByID env0 1 db_locked =
     (Inl (WrapError (Some LockNotAvailable) ''loadRun> Unable to load workflow run''),
      db_locked\<lparr>calls := [SelectOne_run (Q_loadAndLockRunByID 1)], faults := []\<rparr>)"
    by (simp add: k)
  have "\<exists>wr d'. loadAndLockRunByID env0 1 db_full = (Inr wr, d') \<and>
          held d' = held db_full @ [1] \<and> ID wr = 1 \<and> columns_of wr = Run_of_row ?row \<and>
          (case r_workflow ?row of
             None \<Rightarrow> Workflow wr = Workflow_zero
           | Some s \<Rightarrow> unmarshalWorkflow env0 s = Inr (Workflow wr)) \<and>
          (case r_infos ?row of
             None \<Rightarrow> Infos wr = []
           | Some s \<Rightarrow> unmarshalInfos env0 s = Inr (Infos wr)) \<and>
          Tags wr = tags_of 1 db_full \<and>
          (\<exists>ns'. list_all2 (\<lambda>n n'. \<exists>dd dd'. NodeRun_PostGet env0 n dd = (Inr n', dd'))
                   (node_runs_of 1 db_full) ns' \<and>
                 (\<forall>k. sorted_wrt (\<lambda>a b. SubNumber a \<ge> SubNumber b)
                        (slice_of (WorkflowNodeRuns wr k)) \<and>
                      mset (slice_of (WorkflowNodeRuns wr k)) =
                        mset (filter (\<lambda>n. WorkflowNodeID n = k) ns')))"
    by (rule loadAndLockRunByID_nowait[of 1 db_full env0 ?row, THEN conjunct2, THEN conjunct1,
          rule_format]) (intro conjI f)
  then obtain wr d' ns' where l: "loadAndLockRunByID env0 1 db_full = (Inr wr, d')"
    and h: "held d' = held db_full @ [1]" and i: "ID wr = 1"
    and cw: "columns_of wr = Run_of_row ?row"
    and bw: "case r_workflow ?row of
               None \<Rightarrow> Workflow wr = Workflow_zero
             | Some s \<Rightarrow> unmarshalWorkflow env0 s = Inr (Workflow wr)"
    and bi: "case r_infos ?row of
               None \<Rightarrow> Infos wr = []
             | Some s \<Rightarrow> unmarshalInfos env0 s = Inr (Infos wr)"
    and t: "Tags wr = tags_of 1 db_full"
    and n: "list_all2 (\<lambda>n n'. \<exists>dd dd'. NodeRun_PostGet env0 n dd = (Inr n', dd'))
              (node_runs_of 1 db_full) ns'"
    and s: "sorted_wrt (\<lambda>a b. SubNumber a \<ge> SubNumber b) (slice_of (WorkflowNodeRuns wr 7))"
    and m: "mset (slice_of (WorkflowNodeRuns wr 7)) = mset (filter (\<lambda>n. WorkflowNodeID n = 7) ns')"
    by blast
  have "Number wr = Number (columns_of wr)" "Status wr = Status (columns_of wr)"
    by (simp_all add: columns_of_def)
  with cw have c: "Number wr = 1" "Status wr = ''Building''"
    by (simp_all add: Run_of_row_def ex_eval)
  from bw have w: "Workflow wr = Workflow_zero"
    by (simp add: ex_eval split: if_splits)
  from bi have iw: "Infos wr = []"
    by (simp add: ex_eval split: if_splits)
  have "node_runs_of 1 db_full = [node_run 3 7 1, node_run 1 7 0, node_run 2 8 0]"
    by (simp add: node_runs_of_def db_full_def node_run_def ex_eval)
  with n have "ns' = [node_run 3 7 1, node_run 1 7 0, node_run 2 8 0]"
    by (simp add: env0_def list_all2_Cons1)
  with m have "mset (slice_of (WorkflowNodeRuns wr 7)) = mset [node_run 3 7 1, node_run 1 7 0]"
    by (simp add: node_run_def)
  then have "image_mset SubNumber (mset (slice_of (WorkflowNodeRuns wr 7))) =
             image_mset SubNumber (mset [node_run 3 7 1, node_run 1 7 0])"
    by (rule arg_cong)
  then have "mset (map SubNumber (slice_of (WorkflowNodeRuns wr 7))) = mset [1, 0]"
    by (simp add: node_run_def)
  moreover from s have "sorted (rev (map SubNumber (slice_of (WorkflowNodeRuns wr 7))))"
    by (simp add: sorted_wrt_rev sorted_wrt_map rev_map[symmetric])
  ultimately have "sort [1, 0] = rev (map SubNumber (slice_of (WorkflowNodeRuns wr 7)))"
    by (intro properties_for_sort) simp_all
  then have "rev (rev (map SubNumber (slice_of (WorkflowNodeRuns wr 7)))) = rev [0, 1]"
    by simp
  then have ns: "map SubNumber (slice_of (WorkflowNodeRuns wr 7)) = [1, 0]"
    by simp
  from l h i c w iw t ns g
  have 2: "\<exists>wr d'. loadAndLockRunByID env0 1 db_full = (Inr wr, d') \<and> held d' = [1] \<and>
             locked db_full = [] \<and> ID wr = 1 \<and> Number wr = 1 \<and> Status wr = ''Building'' \<and>
             Workflow wr = Workflow_zero \<and> Infos wr = [] \<and>
             Tags wr = [\<lparr>WorkflowRunID = 1, Tag = ''branch'', Value = ''main''\<rparr>] \<and>
             map SubNumber (slice_of (WorkflowNodeRuns wr 7)) = [1, 0]"
    by (intro exI[of _ wr] exI[of _ d']) simp
  from 1 2 show ?thesis by (rule conjI)
qed

subsection \<open>C9: NULL and malformed blobs in PostGet\<close>

lemma PostGet_blobs:
  assumes "db_SelectOne_blobs (ID r) d = (Inr (W, I), d1)"
  shows "(W = None \<and> I = None \<longrightarrow> PostGet c r d = (None, r, d1)) \<and>
         (W = None \<longrightarrow> Workflow (fst (snd (PostGet c r d))) = Workflow r) \<and>
         (I = None \<longrightarrow> Infos (fst (snd (PostGet c r d))) = Infos r) \<and>
         (W = None \<and> (\<exists>i. I = Some i \<and> (\<exists>infos. unmarshalInfos c i = Inr infos)) \<longrightarrow>
            fst (PostGet c r d) = None) \<and>
         (I = None \<and> (\<exists>w. W = Some w \<and> (\<exists>wf. unmarshalWorkflow c w = Inr wf)) \<longrightarrow>
            fst (PostGet c r d) = None) \<and>
         (\<forall>w err. W = Some w \<and> unmarshalWorkflow c w = Inl err \<longrightarrow>
            fst (PostGet c r d) =
              Some (WrapError (Some err) ''Run.PostGet> Unable to unmarshal workflow'')) \<and>
         (\<forall>i err. I = Some i \<and> unmarshalInfos c i = Inl err \<and>
                  (\<forall>w. W = Some w \<longrightarrow> (\<exists>wf. unmarshalWorkflow c w = Inr wf)) \<longrightarrow>
            fst (PostGet c r d) =
              Some (WrapError (Some err) ''Run.PostGet> Unable to unmarshal infos''))"
proof -
  have 1: "W = None \<and> I = None \<longrightarrow> PostGet c r d = (None, r, d1)"
    using assms by (simp add: PostGet_def)
  have 2: "W = None \<longrightarrow> Workflow (fst (snd (PostGet c r d))) = Workflow r"
    using assms by (cases I) (auto simp: PostGet_def split: sum.splits)
  have 3: "I = None \<longrightarrow> Infos (fst (snd (PostGet c r d))) = Infos r"
    using assms by (cases W) (auto simp: PostGet_def split: sum.splits)
  have 4: "W = None \<and> (\<exists>i. I = Some i \<and> (\<exists>infos. unmarshalInfos c i = Inr infos)) \<longrightarrow>
            fst (PostGet c r d) = None"
    using assms by (auto simp: PostGet_def)
  have 5: "I = None \<and> (\<exists>w. W = Some w \<and> (\<exists>wf. unmarshalWorkflow c w = Inr wf)) \<longrightarrow>
            fst (PostGet c r d) = None"
    using assms by (auto simp: PostGet_def)
  have 6: "\<forall>w err. W = Some w \<and> unmarshalWorkflow c w = Inl err \<longrightarrow>
            fst (PostGet c r d) =
              Some (WrapError (Some err) ''Run.PostGet> Unable to unmarshal workflow'')"
    using assms by (auto simp: PostGet_def)
  have 7: "\<forall>i err. I = Some i \<and> unmarshalInfos c i = Inl err \<and>
                  (\<forall>w. W = Some w \<longrightarrow> (\<exists>wf. unmarshalWorkflow c w = Inr wf)) \<longrightarrow>
            fst (PostGet c r d) =
              Some (WrapError (Some err) ''Run.PostGet> Unable to unmarshal infos'')"
    using assms by (cases W) (auto simp: PostGet_def)
  from 1 2 3 4 5 6 7 show ?thesis by (intro conjI)
qed


text \<open>
  \<^bold>\<open>C9.\<close> Let the statement of \<^verbatim>\<open>Run.PostGet\<close> return the two JSON columns of the row.
  A column that is NULL leaves its field as it was and causes no error: with both columns
  NULL the hook succeeds and changes nothing. A column that is present and that
  \<^verbatim>\<open>json.Unmarshal\<close> rejects makes the hook fail with the wrapped JSON error. For a whole
  load: whenever \<^verbatim>\<open>loadRun\<close> returns a run, the run comes from a stored row, a NULL column
  of that row left the zero value in its field (the empty workflow, no infos), and a
  column that is present was decoded without error, so a load of a row with a malformed
  blob does not succeed.
\<close>

theorem blobs_null_or_malformed:
  "(db_SelectOne_blobs (ID r) d = (Inr (W, I), d1) \<longrightarrow>
      (W = None \<and> I = None \<longrightarrow> PostGet c r d = (None, r, d1)) \<and>
      (W = None \<longrightarrow> Workflow (fst (snd (PostGet c r d))) = Workflow r) \<and>
      (I = None \<longrightarrow> Infos (fst (snd (PostGet c r d))) = Infos r) \<and>
      (W = None \<and> (\<exists>i. I = Some i \<and> (\<exists>infos. unmarshalInfos c i = Inr infos)) \<longrightarrow>
         fst (PostGet c r d) = None) \<and>
      (I = None \<and> (\<exists>w. W = Some w \<and> (\<exists>wf. unmarshalWorkflow c w = Inr wf)) \<longrightarrow>
         fst (PostGet c r d) = None) \<and>
      (\<forall>w err. W = Some w \<and> unmarshalWorkflow c w = Inl err \<longrightarrow>
         fst (PostGet c r d) =
           Some (WrapError (Some err) ''Run.PostGet> Unable to unmarshal workflow'')) \<and>
      (\<forall>i err. I = Some i \<and> unmarshalInfos c i = Inl err \<and>
               (\<forall>w. W = Some w \<longrightarrow> (\<exists>wf. unmarshalWorkflow c w = Inr wf)) \<longrightarrow>
         fst (PostGet c r d) =
           Some (WrapError (Some err) ''Run.PostGet> Unable to unmarshal infos''))) \<and>
   (loadRun c q d = (Inr wr, d') \<longrightarrow>
      (\<exists>row\<in>set (workflow_run d). r_id row = ID wr \<and>
         (case r_workflow row of
            None \<Rightarrow> Workflow wr = Workflow_zero
          | Some s \<Rightarrow> unmarshalWorkflow c s = Inr (Workflow wr)) \<and>
         (case r_infos row of
            None \<Rightarrow> Infos wr = []
          | Some s \<Rightarrow> unmarshalInfos c s = Inr (Infos wr))))"
  using PostGet_blobs[of r d W I d1 c] loadRun_blobs[of c q d wr d']
  by (intro conjI impI) blast+

theorem blobs_null_or_malformed_witness:
  "PostGet env0 (Run_of_row row1) db0 =
     (None, Run_of_row row1, logcall (SelectOne_blobs 1) db0) \<and>
   (\<exists>wr d'. loadRun env0 (Q_LoadRunByID 1) db0 = (Inr wr, d') \<and>
             Workflow wr = Workflow_zero \<and> Infos wr = []) \<and>
   fst (PostGet env0 (Run_of_row row1) db_malformed) =
     Some (WrapError (Some (JsonError ''{oops'')) ''Run.PostGet> Unable to unmarshal infos'') \<and>
   fst (loadRun env0 (Q_LoadRunByID 1) db_malformed) =
     Inl (WrapError
           (Some (WrapError (Some (JsonError ''{oops''))
              ''Run.PostGet> Unable to unmarshal infos''))
           ''loadRun> Unable to load workflow run'')"
proof -
  note th = blobs_null_or_malformed
  have i: "ID (Run_of_row row1) = 1"
    by (simp add: Run_of_row_def row1_def)
  have b0: "db_SelectOne_blobs (ID (Run_of_row row1)) db0 =
      (Inr (None, None), logcall (SelectOne_blobs 1) db0)"
    unfolding i by (simp add: db_SelectOne_blobs_def blobs_of_def db_eval ex_eval)
  have 1: "PostGet env0 (Run_of_row row1) db0 =
      (None, Run_of_row row1, logcall (SelectOne_blobs 1) db0)"
    using th[of "Run_of_row row1" db0 None None "logcall (SelectOne_blobs 1) db0" env0,
             THEN conjunct1, rule_format, OF b0, THEN conjunct1]
    by simp
  have "fst (loadRun env0 (Q_LoadRunByID 1) db0) = Inr run1"
    by (simp add: loadRun_eval load_eval db_eval ex_eval fun_eq_iff)
  then obtain d' where l: "loadRun env0 (Q_LoadRunByID 1) db0 = (Inr run1, d')"
    by (metis prod.collapse)
  have w: "set (workflow_run db0) = {row1}" "r_workflow row1 = None" "r_infos row1 = None"
    by (simp_all add: ex_eval)
  from th[where c = env0 and q = "Q_LoadRunByID 1" and d = db0 and wr = run1 and d' = d',
          THEN conjunct2, rule_format, OF l] w
  have "Workflow run1 = Workflow_zero \<and> Infos run1 = []"
    by simp
  with l have 2: "\<exists>wr d'. loadRun env0 (Q_LoadRunByID 1) db0 = (Inr wr, d') \<and>
             Workflow wr = Workflow_zero \<and> Infos wr = []"
    by blast
  have bm: "db_SelectOne_blobs (ID (Run_of_row row1)) db_malformed =
      (Inr (None, Some ''{oops''), logcall (SelectOne_blobs 1) db_malformed)"
    unfolding i by (simp add: db_SelectOne_blobs_def blobs_of_def db_eval ex_eval db_malformed_def)
  have u: "unmarshalInfos env0 ''{oops'' = Inl (JsonError ''{oops'')"
    by (simp add: env0_def)
  from th[of "Run_of_row row1" db_malformed None "Some ''{oops''"
             "logcall (SelectOne_blobs 1) db_malformed" env0,
          THEN conjunct1, rule_format, OF bm]
  have "\<forall>i err. Some ''{oops'' = Some i \<and> unmarshalInfos env0 i = Inl err \<and>
               (\<forall>w. (None::string option) = Some w \<longrightarrow> (\<exists>wf. unmarshalWorkflow env0 w = Inr wf)) \<longrightarrow>
         fst (PostGet env0 (Run_of_row row1) db_malformed) =
           Some (WrapError (Some err) ''Run.PostGet> Unable to unmarshal infos'')"
    by (elim conjE)
  with u have 3: "fst (PostGet env0 (Run_of_row row1) db_malformed) =
     Some (WrapError (Some (JsonError ''{oops'')) ''Run.PostGet> Unable to unmarshal infos'')"
    by simp
  have 4: "fst (loadRun env0 (Q_LoadRunByID 1) db_malformed) =
     Inl (WrapError
           (Some (WrapError (Some (JsonError ''{oops''))
              ''Run.PostGet> Unable to unmarshal infos''))
           ''loadRun> Unable to load workflow run'')"
    by (simp add: loadRun_eval load_eval db_eval ex_eval db_malformed_def)
  from 1 2 3 4 show ?thesis by (intro conjI)
qed

subsection \<open>C10 and C8: values with a comma in GetTagsAndValue\<close>

text \<open>The unfolding rules for \<^verbatim>\<open>GetTagsAndValue\<close>.\<close>

lemmas tags_eval = GetTagsAndValue_def tags_values_def distinct_tags_def observed_tags_def
  values_of_tag_def
  returned_values_def


text \<open>
  \<^bold>\<open>C10.\<close> There is a workflow whose run carries one tag value with a comma in it,
  \<^verbatim>\<open>Doe, John\<close>, for which \<^verbatim>\<open>GetTagsAndValue\<close> returns two entries under the tag's key:
  the statement joins the values of a key with commas and the Go code splits the joined
  string at every comma.
\<close>

theorem GetTagsAndValue_splits_value_with_comma:
  "workflow_run_tag db_comma = [\<lparr>WorkflowRunID = 1, Tag = ''git.author'', Value = ''Doe, John''\<rparr>] \<and>
   returned_values (GetTagsAndValue ''KEY'' ''wf'' db_comma) ''git.author'' =
     Some [''Doe'', '' John'']"
  by (simp add: tags_eval db_eval ex_eval db_comma_def)

text \<open>
  \<^bold>\<open>C8\<close> (the code at the failing input). Two runs tagged \<^verbatim>\<open>branch=a,b\<close> and
  \<^verbatim>\<open>branch=a\<close>: the distinct values observed are \<^verbatim>\<open>a\<close> and \<^verbatim>\<open>a,b\<close>, and the function
  returns \<^verbatim>\<open>a\<close> twice and \<^verbatim>\<open>b\<close>, which is no value of any run.
\<close>

theorem GetTagsAndValue_repeats_value:
  "returned_values (GetTagsAndValue ''KEY'' ''wf'' db_two_values) ''branch'' =
     Some [''a'', ''a'', ''b'']"
  by (simp add: tags_eval db_eval ex_eval db_two_values_def row2_def less_eq_char_def less_char_def)

subsection \<open>X1: GetTagsAndValue when no value holds a comma\<close>

lemma Split_no_sep: "sep \<notin> set v \<Longrightarrow> Split v sep = [v]"
  by (induction v) auto

lemma Split_append_sep:
  "sep \<notin> set v \<Longrightarrow> Split (v @ sep # rest) sep = v # Split rest sep"
  by (induction v) auto

lemma Split_STRING_AGG:
  assumes "vs \<noteq> []" and "\<forall>v\<in>set vs. sep \<notin> set v"
  shows "Split (STRING_AGG vs [sep]) sep = vs"
  using assms
proof (induction vs "[sep]" rule: STRING_AGG.induct)
  case 1
  then show ?case by simp
next
  case (2 v)
  then show ?case by (simp add: Split_no_sep)
next
  case (3 v u vs)
  then show ?case by (simp add: Split_append_sep)
qed

lemma foldl_rmap:
  "foldl (\<lambda>rmap r. rmap(fst r \<mapsto> f (snd r))) init (map (\<lambda>t. (t, g t)) ts) tag =
     (if tag \<in> set ts then Some (f (g tag)) else init tag)"
  by (induction ts arbitrary: init) auto

lemma values_of_tag_sorted: "sorted (values_of_tag tag (distinct_tags key name d))"
  unfolding values_of_tag_def distinct_tags_def
  by (rule sorted_filter) simp

lemma values_of_tag_distinct: "distinct (values_of_tag tag (distinct_tags key name d))"
proof -
  have "distinct (distinct_tags key name d)"
    by (simp add: distinct_tags_def)
  then have "distinct (filter (\<lambda>row. fst row = tag) (distinct_tags key name d))"
    by simp
  moreover have "inj_on snd (set (filter (\<lambda>row. fst row = tag) (distinct_tags key name d)))"
    by (auto simp: inj_on_def)
  ultimately show ?thesis
    by (simp add: values_of_tag_def distinct_map)
qed

lemma set_values_of_tag:
  "set (values_of_tag tag (distinct_tags key name d)) =
     {v. (tag, v) \<in> set (observed_tags key name d)}"
  by (force simp: values_of_tag_def distinct_tags_def)

lemma values_of_tag_eq:
  "values_of_tag tag (distinct_tags key name d) =
     sorted_list_of_set {v. (tag, v) \<in> set (observed_tags key name d)}"
  using values_of_tag_sorted[of tag key name d] values_of_tag_distinct[of tag key name d]
    set_values_of_tag[of tag key name d]
  by (metis sorted_list_of_set.idem_if_sorted_distinct)

lemma observed_tags_cong:
  "workflow_run_tag d' = workflow_run_tag d \<Longrightarrow> workflow_run d' = workflow_run d \<Longrightarrow>
   workflow d' = workflow d \<Longrightarrow> project d' = project d \<Longrightarrow>
   observed_tags key name d' = observed_tags key name d"
  unfolding observed_tags_def by (erule ssubst)+ (rule refl)

text \<open>
  \<^bold>\<open>X1.\<close> The way \<^verbatim>\<open>GetTagsAndValue\<close> meets its description: when no tag value observed on the runs
  of the workflow holds a comma, a successful call maps every observed tag key to the
  distinct values observed for it, in ascending order, and no other key to anything.
\<close>

theorem GetTagsAndValue_without_commas:
  assumes "GetTagsAndValue key name d = (Inr m, d')"
    and "\<forall>row\<in>set (observed_tags key name d). CHR '','' \<notin> set (snd row)"
  shows "m tag =
    (if tag \<in> fst ` set (observed_tags key name d)
     then Some (sorted_list_of_set {v. (tag, v) \<in> set (observed_tags key name d)})
     else None)"
proof -
  let ?c = "Select_tags_values key name"
  from assms(1) have s: "stmt (logcall ?c d) = (None, d')"
    and m: "m = foldl (\<lambda>rmap r. rmap(fst r \<mapsto> Split (snd r) (CHR '',''))) Map.empty
                 (tags_values key name d')"
    by (auto simp: GetTagsAndValue_def split: prod.splits sum.splits elim!: db_Select_cases)
  from stmt_tables[OF s] have o: "observed_tags key name d' = observed_tags key name d"
    by (intro observed_tags_cong) (simp_all add: logcall_def)
  then have dt: "distinct_tags key name d' = distinct_tags key name d"
    by (simp add: distinct_tags_def)
  let ?tags = "sort (remdups (map fst (distinct_tags key name d)))"
  have tv: "tags_values key name d' =
      map (\<lambda>t. (t, STRING_AGG (values_of_tag t (distinct_tags key name d)) '','')) ?tags"
    by (simp add: tags_values_def dt Let_def)
  have st: "set ?tags = fst ` set (observed_tags key name d)"
    by (simp add: distinct_tags_def)
  have mt: "m tag =
      (if tag \<in> set ?tags
       then Some (Split (STRING_AGG (values_of_tag tag (distinct_tags key name d)) '','') (CHR '',''))
       else None)"
    unfolding m tv
    using foldl_rmap[where f = "\<lambda>s. Split s (CHR '','')" and init = Map.empty and ts = ?tags
        and g = "\<lambda>t. STRING_AGG (values_of_tag t (distinct_tags key name d)) '',''" and tag = tag]
    by simp
  show ?thesis
  proof (cases "tag \<in> fst ` set (observed_tags key name d)")
    case False
    with st mt show ?thesis
      by simp
  next
    case True
    let ?vs = "values_of_tag tag (distinct_tags key name d)"
    from True have "{v. (tag, v) \<in> set (observed_tags key name d)} \<noteq> {}"
      by force
    then have ne: "?vs \<noteq> []"
      using set_values_of_tag[of tag key name d] by auto
    have nc: "\<forall>v\<in>set ?vs. CHR '','' \<notin> set v"
      using assms(2) set_values_of_tag[of tag key name d] by force
    have "Split (STRING_AGG ?vs '','') (CHR '','') = ?vs"
      using Split_STRING_AGG[OF ne nc] by simp
    with True st mt show ?thesis
      by (simp add: values_of_tag_eq)
  qed
qed

theorem GetTagsAndValue_without_commas_witness:
  "\<exists>m d'. GetTagsAndValue ''KEY'' ''wf'' db_branches = (Inr m, d') \<and>
     (\<forall>row\<in>set (observed_tags ''KEY'' ''wf'' db_branches). CHR '','' \<notin> set (snd row)) \<and>
     m ''branch'' = Some (sorted_list_of_set {''dev'', ''main''}) \<and>
     m ''branch'' = Some [''dev'', ''main''] \<and> m ''commit'' = None"
proof -
  let ?g = "GetTagsAndValue ''KEY'' ''wf'' db_branches"
  have o: "observed_tags ''KEY'' ''wf'' db_branches =
      [(''branch'', ''main''), (''branch'', ''dev''), (''branch'', ''main'')]"
    by (simp add: observed_tags_def db_branches_def row2_def ex_eval)
  have v: "returned_values ?g ''branch'' = Some [''dev'', ''main'']"
    by (simp add: tags_eval db_eval ex_eval db_branches_def row2_def less_eq_char_def less_char_def)
  then obtain m where m: "fst ?g = Inr m" "m ''branch'' = Some [''dev'', ''main'']"
    by (auto simp: returned_values_def split: sum.splits)
  then have g: "?g = (Inr m, snd ?g)"
    by (metis prod.collapse)
  have nc: "\<forall>row\<in>set (observed_tags ''KEY'' ''wf'' db_branches). CHR '','' \<notin> set (snd row)"
    unfolding o by simp
  have s: "{v. (''branch'', v) \<in> set (observed_tags ''KEY'' ''wf'' db_branches)} = {''dev'', ''main''}"
    unfolding o by auto
  from GetTagsAndValue_without_commas[OF g nc, of "''branch''"] s
  have 1: "m ''branch'' = Some (sorted_list_of_set {''dev'', ''main''})"
    unfolding o by simp
  from GetTagsAndValue_without_commas[OF g nc, of "''commit''"]
  have 2: "m ''commit'' = None"
    unfolding o by simp
  from g nc 1 2 m(2) show ?thesis
    by blast
qed

subsection \<open>C5: nextRunNumber never returns a number twice\<close>

lemma nextRunNumber_cases:
  assumes "nextRunNumber w d = (res, d')"
  obtains (fault) e where "res = Inl e" "workflow_sequences d' = workflow_sequences d"
  | (ok) "res = Inr (workflow_sequences d (wf_ID w) + 1)"
      "workflow_sequences d' = (workflow_sequences d)(wf_ID w := workflow_sequences d (wf_ID w) + 1)"
proof -
  obtain f d1 where s: "stmt (logcall (SelectInt_nextval (wf_ID w)) d) = (f, d1)"
    by (cases "stmt (logcall (SelectInt_nextval (wf_ID w)) d)")
  from stmt_tables[OF s] have q: "workflow_sequences d1 = workflow_sequences d"
    by (simp add: logcall_def)
  show thesis
  proof (cases f)
    case None
    with assms s q ok show ?thesis
      by (auto simp: nextRunNumber_def workflow_sequences_nextval_def Let_def)
  next
    case (Some e)
    with assms s q fault show ?thesis
      by (auto simp: nextRunNumber_def)
  qed
qed

lemma nextRunNumber_mono:
  "nextRunNumber w d = (res, d') \<Longrightarrow> workflow_sequences d k \<le> workflow_sequences d' k"
  by (erule nextRunNumber_cases) auto

lemma nextRunNumber_calls_length:
  "nextRunNumber_calls ws d = (ress, d') \<Longrightarrow> length ress = length ws"
  by (induction ws arbitrary: d ress) (auto split: prod.splits)

lemma nextRunNumber_calls_above:
  "nextRunNumber_calls ws d = (ress, d') \<Longrightarrow> j < length ws \<Longrightarrow> ress ! j = Inr b \<Longrightarrow>
   workflow_sequences d (wf_ID (ws ! j)) < b"
proof (induction ws arbitrary: d ress j)
  case Nil
  then show ?case by simp
next
  case (Cons w ws)
  obtain res d1 where n: "nextRunNumber w d = (res, d1)"
    by (cases "nextRunNumber w d")
  from Cons.prems(1) n obtain rest where c: "nextRunNumber_calls ws d1 = (rest, d')"
    and ress: "ress = res # rest"
    by (auto split: prod.splits)
  show ?case
  proof (cases j)
    case 0
    with Cons.prems(3) ress have "res = Inr b" by simp
    with n 0 show ?thesis
      by (auto elim!: nextRunNumber_cases)
  next
    case (Suc j')
    with Cons.prems ress have "j' < length ws" "rest ! j' = Inr b"
      by simp_all
    from Cons.IH[OF c this] have "workflow_sequences d1 (wf_ID (ws ! j')) < b" .
    with nextRunNumber_mono[OF n, of "wf_ID (ws ! j')"] Suc show ?thesis
      by simp
  qed
qed

lemma nextRunNumber_calls_increasing:
  "nextRunNumber_calls ws d = (ress, d') \<Longrightarrow> i < j \<Longrightarrow> j < length ws \<Longrightarrow>
   wf_ID (ws ! i) = wf_ID (ws ! j) \<Longrightarrow> ress ! i = Inr a \<Longrightarrow> ress ! j = Inr b \<Longrightarrow> a < b"
proof (induction ws arbitrary: d ress i j)
  case Nil
  then show ?case by simp
next
  case (Cons w ws)
  obtain res d1 where n: "nextRunNumber w d = (res, d1)"
    by (cases "nextRunNumber w d")
  from Cons.prems(1) n obtain rest where c: "nextRunNumber_calls ws d1 = (rest, d')"
    and ress: "ress = res # rest"
    by (auto split: prod.splits)
  from Cons.prems(2) obtain j' where j: "j = Suc j'"
    by (cases j) auto
  with Cons.prems ress have j': "j' < length ws" "rest ! j' = Inr b"
    by simp_all
  show ?case
  proof (cases i)
    case 0
    with Cons.prems(5) ress have "res = Inr a" by simp
    with n have "workflow_sequences d1 (wf_ID w) = a"
      by (auto elim!: nextRunNumber_cases)
    moreover from Cons.prems(4) 0 j have "wf_ID w = wf_ID (ws ! j')"
      by simp
    ultimately show ?thesis
      using nextRunNumber_calls_above[OF c j'] by simp
  next
    case (Suc i')
    with Cons.prems j ress have "i' < j'" "wf_ID (ws ! i') = wf_ID (ws ! j')" "rest ! i' = Inr a"
      by simp_all
    from Cons.IH[OF c this(1) j'(1) this(2,3) j'(2)] show ?thesis .
  qed
qed

lemma nextRunNumber_no_fault:
  "faults d = [] \<Longrightarrow>
   \<exists>n d'. nextRunNumber w d = (Inr n, d') \<and> faults d' = []"
  by (simp add: nextRunNumber_def stmt_def logcall_def workflow_sequences_nextval_def Let_def)

lemma nextRunNumber_calls_no_fault:
  "faults d = [] \<Longrightarrow> nextRunNumber_calls ws d = (ress, d') \<Longrightarrow> \<exists>ns. ress = map Inr ns"
proof (induction ws arbitrary: d ress)
  case Nil
  then show ?case by simp
next
  case (Cons w ws)
  from nextRunNumber_no_fault[OF Cons.prems(1), of w] obtain n d1
    where n: "nextRunNumber w d = (Inr n, d1)" and f: "faults d1 = []"
    by blast
  from Cons.prems(2) n obtain rest where c: "nextRunNumber_calls ws d1 = (rest, d')"
    and ress: "ress = Inr n # rest"
    by (auto split: prod.splits)
  from Cons.IH[OF f c] obtain ns where "rest = map Inr ns"
    by blast
  with ress have "ress = map Inr (n # ns)"
    by simp
  then show ?case by blast
qed

text \<open>
  \<^bold>\<open>C5.\<close> In every history of calls of \<^verbatim>\<open>nextRunNumber\<close>, two successful calls for the
  same workflow return different numbers: the later call returns the larger one. Every
  call gives one result, and when no statement fails every call returns a number.
\<close>

theorem nextRunNumber_never_repeats:
  assumes "nextRunNumber_calls ws d = (ress, d')"
  shows "length ress = length ws \<and>
         (\<forall>i j a b. i < j \<and> j < length ws \<and> wf_ID (ws ! i) = wf_ID (ws ! j) \<and>
                    ress ! i = Inr a \<and> ress ! j = Inr b \<longrightarrow> a < b \<and> a \<noteq> b) \<and>
         (faults d = [] \<longrightarrow> (\<exists>ns. ress = map Inr ns))"
proof (intro conjI allI impI)
  show "length ress = length ws"
    using assms by (rule nextRunNumber_calls_length)
next
  fix i j a b
  assume h: "i < j \<and> j < length ws \<and> wf_ID (ws ! i) = wf_ID (ws ! j) \<and>
             ress ! i = Inr a \<and> ress ! j = Inr b"
  with nextRunNumber_calls_increasing[OF assms, of i j a b] show "a < b"
    by blast
  then show "a \<noteq> b" by simp
next
  assume "faults d = []"
  then show "\<exists>ns. ress = map Inr ns"
    using assms by (rule nextRunNumber_calls_no_fault)
qed

theorem nextRunNumber_never_repeats_witness:
  "fst (nextRunNumber_calls [wfA, wfB, wfA] db0) = [Inr 1, Inr 1, Inr 2] \<and>
   wf_ID ([wfA, wfB, wfA] ! 0) = wf_ID ([wfA, wfB, wfA] ! 2) \<and> faults db0 = [] \<and>
   (1::int) < 2"
proof -
  let ?ws = "[wfA, wfB, wfA]"
  let ?r = "nextRunNumber_calls ?ws db0"
  have e: "fst ?r = [Inr 1, Inr 1, Inr 2]"
    by (simp add: nextRunNumber_def workflow_sequences_nextval_def db_eval ex_eval wfA_def wfB_def)
  then have r: "?r = ([Inr 1, Inr 1, Inr 2], snd ?r)"
    by (metis prod.collapse)
  have w: "wf_ID (?ws ! 0) = wf_ID (?ws ! 2)" "faults db0 = []"
    by (simp_all add: wfA_def db0_def)
  have "(1::int) < 2 \<and> (1::int) \<noteq> 2"
    by (rule nextRunNumber_never_repeats[OF r, THEN conjunct2, THEN conjunct1, rule_format,
          of 0 2 1 2])
       (simp add: w)
  with e w show ?thesis by simp
qed


end
